theory Spec2Isabelle
  imports Complex_Main "HOL-Library.Multiset"
begin

text \<open>
  A shallow embedding of the learning assistant: the client's types, its store,
  its streaming chat client and its chat page, and the database script with the
  similarity search. The backend that the repository documents but does not
  contain (the writes to the vector store, the provider rotation, the quiz
  parser) is modelled from the specification, each definition saying so.
\<close>

section \<open>Client data model (lib/types.ts)\<close>

text \<open>
  The TypeScript interfaces become records. Field names that would clash with
  another record of this theory, with a HOL constant or with a keyword carry a
  prefix: \<open>ChatStreamChunk.done\<close> is \<open>chunk_done\<close>, \<open>DocumentInfo.id\<close> is
  \<open>doc_id\<close>. A JavaScript string is a list of code units; \<open>string\<close> covers the
  code units below 256. A \<open>Date\<close> is its millisecond count.
\<close>

datatype source_kind = Youtube | Pdf

record DocumentInfo =
  doc_id :: string
  title :: string
  source_type :: source_kind

record Flashcard =
  fc_question :: string
  fc_answer :: string

datatype option_label = Label_A | Label_B | Label_C | Label_D

record quiz_options =
  opt_A :: string
  opt_B :: string
  opt_C :: string
  opt_D :: string

record QuizQuestion =
  question :: string
  options :: quiz_options
  correct_answer :: option_label
  explanation :: string

datatype chat_role = User | Assistant

record ChatMessage =
  role :: chat_role
  content :: string
  timestamp :: "int option"

record ChatStreamChunk =
  chunk_content :: string
  chunk_done :: bool
  chunk_error :: "string option"

section \<open>The Zustand store (lib/store.ts)\<close>

record LearningStore =
  currentDocument :: "DocumentInfo option"
  flashcards :: "Flashcard list"
  quizQuestions :: "QuizQuestion list"
  chatHistory :: "ChatMessage list"

definition initial_store :: LearningStore where
  "initial_store =
     \<lparr>currentDocument = None, flashcards = [], quizQuestions = [], chatHistory = []\<rparr>"

definition setCurrentDocument :: "DocumentInfo option \<Rightarrow> LearningStore \<Rightarrow> LearningStore" where
  "setCurrentDocument doc s = s\<lparr>currentDocument := doc\<rparr>"

definition setFlashcards :: "Flashcard list \<Rightarrow> LearningStore \<Rightarrow> LearningStore" where
  "setFlashcards cards s = s\<lparr>flashcards := cards\<rparr>"

definition setQuizQuestions :: "QuizQuestion list \<Rightarrow> LearningStore \<Rightarrow> LearningStore" where
  "setQuizQuestions questions s = s\<lparr>quizQuestions := questions\<rparr>"

definition addChatMessage :: "ChatMessage \<Rightarrow> LearningStore \<Rightarrow> LearningStore" where
  "addChatMessage msg s = s\<lparr>chatHistory := chatHistory s @ [msg]\<rparr>"

text \<open>
  The loop of \<open>updateLastAssistantMessage\<close>,
  \<^verbatim>\<open>for (let i = history.length - 1; i >= 0; i--)\<close>, with the counter \<open>n = i + 1\<close>:
  at \<open>n = 0\<close> the loop has run out, at \<open>Suc i\<close> it looks at index \<open>i\<close> and either
  replaces that message by a copy with the new content and breaks, or goes on to
  \<open>i - 1\<close>.
\<close>

fun update_loop :: "ChatMessage list \<Rightarrow> string \<Rightarrow> nat \<Rightarrow> ChatMessage list" where
  "update_loop history c 0 = history"
| "update_loop history c (Suc i) =
     (if role (history ! i) = Assistant
      then history[i := (history ! i)\<lparr>content := c\<rparr>]
      else update_loop history c i)"

definition updateLastAssistantMessage :: "string \<Rightarrow> LearningStore \<Rightarrow> LearningStore" where
  "updateLastAssistantMessage c s =
     s\<lparr>chatHistory := update_loop (chatHistory s) c (length (chatHistory s))\<rparr>"

definition clearChatHistory :: "LearningStore \<Rightarrow> LearningStore" where
  "clearChatHistory s = s\<lparr>chatHistory := []\<rparr>"

definition resetAll :: "LearningStore \<Rightarrow> LearningStore" where
  "resetAll s = s\<lparr>flashcards := [], quizQuestions := [], chatHistory := []\<rparr>"

section \<open>JavaScript string operations used by the client\<close>

text \<open>
  \<open>split_nl s\<close> is \<^verbatim>\<open>s.split("\n")\<close>: the pieces between line feeds, always at
  least one piece. \<open>startsWith\<close>, \<open>trim\<close> (white space and line terminators among
  the code units below 256) and \<open>truthy\<close> (a string is falsy when it is empty or
  absent) follow the language.
\<close>

fun split_nl :: "string \<Rightarrow> string list" where
  "split_nl [] = [[]]"
| "split_nl (c # cs) =
     (if c = CHR 0x0A then [] # split_nl cs
      else (case split_nl cs of
              l # ls \<Rightarrow> (c # l) # ls
            | [] \<Rightarrow> [[c]]))"

definition startsWith :: "string \<Rightarrow> string \<Rightarrow> bool" where
  "startsWith p s = (take (length p) s = p)"

definition is_whitespace :: "char \<Rightarrow> bool" where
  "is_whitespace c =
     (c = CHR 0x09 \<or> c = CHR 0x0A \<or> c = CHR 0x0B \<or> c = CHR 0x0C \<or> c = CHR 0x0D
      \<or> c = CHR 0x20 \<or> c = CHR 0xA0)"

definition trim :: "string \<Rightarrow> string" where
  "trim s = rev (dropWhile is_whitespace (rev (dropWhile is_whitespace s)))"

fun truthy :: "string option \<Rightarrow> bool" where
  "truthy None = False"
| "truthy (Some s) = (s \<noteq> [])"

section \<open>The chat request and the streaming generator (lib/api.ts)\<close>

record wire_message =
  wire_role :: chat_role
  wire_content :: string

record chat_request =
  req_document_id :: string
  req_message :: string
  req_history :: "wire_message list"

text \<open>
  The body that \<open>chatStream\<close> posts:
  \<^verbatim>\<open>{document_id, message, history: history.map((m) => ({role: m.role, content: m.content}))}\<close>.
\<close>

definition chat_request_of :: "string \<Rightarrow> string \<Rightarrow> ChatMessage list \<Rightarrow> chat_request" where
  "chat_request_of documentId msg history =
     \<lparr>req_document_id = documentId, req_message = msg,
      req_history = map (\<lambda>m. \<lparr>wire_role = role m, wire_content = content m\<rparr>) history\<rparr>"

text \<open>
  What \<open>fetch\<close> answers. \<open>res_json_detail\<close> is what \<^verbatim>\<open>res.json()\<close> gives for an error
  response: \<open>None\<close> when it rejects, otherwise the \<open>detail\<close> member of the object
  (absent: \<open>None\<close>). \<open>res_body\<close> is \<open>None\<close> when the response has no body; otherwise
  it is the sequence of text pieces that successive \<^verbatim>\<open>reader.read()\<close> calls deliver,
  each already passed through \<^verbatim>\<open>decoder.decode(value, {stream: true})\<close>, and the way
  the stream ends: \<open>EndOfStream\<close> (\<^verbatim>\<open>done\<close>) or a rejected read.
\<close>

datatype read_end = EndOfStream | ReadFailed string

record response =
  res_ok :: bool
  res_json_detail :: "string option option"
  res_body :: "(string list \<times> read_end) option"

text \<open>How a generator run ends: it returns, or it throws an error with a message.\<close>

datatype gen_end = Returned | Threw string

text \<open>
  The \<^verbatim>\<open>for (const line of lines)\<close> loop. \<open>JSON_parse\<close> is the platform's
  \<^verbatim>\<open>JSON.parse\<close> read at type \<open>ChatStreamChunk\<close>, \<open>None\<close> when it throws (the
  \<^verbatim>\<open>catch\<close> swallows it). The result is the chunks yielded and whether the
  generator returned (a chunk with \<open>done\<close> was yielded).
\<close>

fun for_lines :: "(string \<Rightarrow> ChatStreamChunk option) \<Rightarrow> string list
    \<Rightarrow> ChatStreamChunk list \<times> bool" where
  "for_lines JSON_parse [] = ([], False)"
| "for_lines JSON_parse (line # lines) =
     (if startsWith ''data: '' line then
        (let jsonStr = trim (drop 6 line) in
         if jsonStr = [] then for_lines JSON_parse lines
         else (case JSON_parse jsonStr of
                 None \<Rightarrow> for_lines JSON_parse lines
               | Some chunk \<Rightarrow>
                   if chunk_done chunk then ([chunk], True)
                   else (let (ys, returned) = for_lines JSON_parse lines
                         in (chunk # ys, returned))))
      else for_lines JSON_parse lines)"

text \<open>
  The \<^verbatim>\<open>while (true)\<close> loop over the reads, with the buffer carried along:
  \<^verbatim>\<open>buffer += text; lines = buffer.split("\n"); buffer = lines.pop() || ""\<close>.
  When the reads run out, \<^verbatim>\<open>done\<close> breaks the loop and the generator returns; a
  rejected read throws out of it.
\<close>

fun ending_of :: "read_end \<Rightarrow> gen_end" where
  "ending_of EndOfStream = Returned"
| "ending_of (ReadFailed e) = Threw e"

fun read_loop :: "(string \<Rightarrow> ChatStreamChunk option) \<Rightarrow> string \<Rightarrow> string list \<Rightarrow> read_end
    \<Rightarrow> ChatStreamChunk list \<times> gen_end" where
  "read_loop JSON_parse buffer [] e = ([], ending_of e)"
| "read_loop JSON_parse buffer (v # vs) e =
     (let lines = split_nl (buffer @ v);
          (ys, returned) = for_lines JSON_parse (butlast lines)
      in if returned then (ys, Returned)
         else (let (zs, r) = read_loop JSON_parse (last lines) vs e in (ys @ zs, r)))"

text \<open>
  \<open>chatStream\<close>: the chunks the generator yields when it is read to its end, and
  how it ends. \<open>fetch\<close> is the network: \<open>Inl\<close> when the request itself fails.
\<close>

definition chatStream :: "(string \<Rightarrow> ChatStreamChunk option) \<Rightarrow> (chat_request \<Rightarrow> string + response)
    \<Rightarrow> string \<Rightarrow> string \<Rightarrow> ChatMessage list \<Rightarrow> ChatStreamChunk list \<times> gen_end" where
  "chatStream JSON_parse fetch documentId msg history =
     (case fetch (chat_request_of documentId msg history) of
        Inl e \<Rightarrow> ([], Threw e)
      | Inr res \<Rightarrow>
          if \<not> res_ok res then
            ([], Threw (case res_json_detail res of
                          None \<Rightarrow> ''Unknown error''
                        | Some detail \<Rightarrow>
                            if truthy detail then the detail else ''Chat request failed''))
          else (case res_body res of
                  None \<Rightarrow> ([], Threw ''No response body'')
                | Some (pieces, e) \<Rightarrow> read_loop JSON_parse [] pieces e))"

text \<open>
  The chunk one line of the body carries, if any: what the body of the
  \<^verbatim>\<open>for (const line of lines)\<close> loop hands to \<^verbatim>\<open>yield\<close> for that line. \<open>data_chunks\<close>
  are the chunks of the complete lines of a body, in order; the text after the
  last line feed is never a line of its own.
\<close>

definition line_chunk :: "(string \<Rightarrow> ChatStreamChunk option) \<Rightarrow> string \<Rightarrow> ChatStreamChunk option" where
  "line_chunk JSON_parse line =
     (if startsWith ''data: '' line \<and> trim (drop 6 line) \<noteq> []
      then JSON_parse (trim (drop 6 line)) else None)"

definition data_chunks :: "(string \<Rightarrow> ChatStreamChunk option) \<Rightarrow> string list \<Rightarrow> ChatStreamChunk list" where
  "data_chunks JSON_parse pieces =
     List.map_filter (line_chunk JSON_parse) (butlast (split_nl (concat pieces)))"

section \<open>The chat page (app/chat/page.tsx)\<close>

text \<open>
  The \<^verbatim>\<open>for await (const chunk of stream)\<close> loop of \<open>handleSend\<close>, over the chunks
  the generator yields: the accumulated response, the store, the toasts shown and
  whether the loop left by \<^verbatim>\<open>break\<close>.
\<close>

definition sorry_message :: string where
  "sorry_message = ''Sorry, I encountered an error. Please try again.''"

definition empty_message :: string where
  "empty_message = ''I couldn't generate a response. Please try again.''"

fun for_await :: "ChatStreamChunk list \<Rightarrow> string \<Rightarrow> LearningStore \<Rightarrow> string list
    \<Rightarrow> string \<times> LearningStore \<times> string list \<times> bool" where
  "for_await [] fullResponse s toasts = (fullResponse, s, toasts, False)"
| "for_await (chunk # rest) fullResponse s toasts =
     (if truthy (chunk_error chunk)
      then (fullResponse, updateLastAssistantMessage sorry_message s,
            toasts @ [the (chunk_error chunk)], True)
      else for_await rest (fullResponse @ chunk_content chunk)
             (updateLastAssistantMessage (fullResponse @ chunk_content chunk) s) toasts)"

record page_state =
  input :: string
  isStreaming :: bool

record send_outcome =
  store_at_request :: LearningStore
  store_after :: LearningStore
  toasts_shown :: "string list"
  page_after :: page_state

text \<open>
  \<open>handleSend\<close>. \<open>now1\<close> and \<open>now2\<close> are the two readings of the clock
  (\<^verbatim>\<open>new Date()\<close>), and \<open>chatHistory\<close> as the callback sees it is the store's (the
  callback is rebuilt whenever \<open>chatHistory\<close> changes). \<open>None\<close>: the guard returned at
  once and nothing was sent. The generator is lazy, so after a \<^verbatim>\<open>break\<close> its
  ending is never observed; when the loop reads it to its end, a throw goes to the
  \<^verbatim>\<open>catch\<close> branch, which skips the check for an empty response.
\<close>

definition handleSend :: "(string \<Rightarrow> ChatStreamChunk option) \<Rightarrow> (chat_request \<Rightarrow> string + response)
    \<Rightarrow> int \<Rightarrow> int \<Rightarrow> page_state \<Rightarrow> LearningStore \<Rightarrow> send_outcome option" where
  "handleSend JSON_parse fetch now1 now2 page store =
     (if trim (input page) = [] \<or> isStreaming page \<or> currentDocument store = None then None
      else
        (let userMessage = \<lparr>role = User, content = trim (input page), timestamp = Some now1\<rparr>;
             historySnapshot = chatHistory store;
             s1 = addChatMessage userMessage store;
             assistantPlaceholder = \<lparr>role = Assistant, content = [], timestamp = Some now2\<rparr>;
             s2 = addChatMessage assistantPlaceholder s1;
             documentId = doc_id (the (currentDocument store));
             (chunks, ending) =
                chatStream JSON_parse fetch documentId (content userMessage) historySnapshot;
             (fullResponse, s3, toasts, broke) = for_await chunks [] s2 [];
             (s4, toasts') =
                (case (if broke then Returned else ending) of
                   Returned \<Rightarrow>
                     (if fullResponse = [] then updateLastAssistantMessage empty_message s3
                      else s3, toasts)
                 | Threw e \<Rightarrow> (updateLastAssistantMessage sorry_message s3, toasts @ [e]))
         in Some \<lparr>store_at_request = s2,
                  store_after = s4,
                  toasts_shown = toasts',
                  page_after = \<lparr>input = [], isStreaming = False\<rparr>\<rparr>))"

section \<open>The database schema and the similarity search (supabase_setup.sql)\<close>

text \<open>
  The two tables, one record per row. A column without \<^verbatim>\<open>not null\<close> holds an
  \<open>option\<close>; the \<open>embedding\<close> column is one of them. A \<open>uuid\<close> is its text, a
  \<^verbatim>\<open>timestamptz\<close> its count, and the components of a vector are reals: floating
  point rounding is not modelled. The column names \<open>id\<close>, \<open>title\<close>,
  \<open>content\<close>, \<open>source_type\<close> and \<open>created_at\<close> carry the prefix of their table.
\<close>

type_synonym uuid = string

type_synonym vector = "real list"

record document_row =
  d_id :: uuid
  d_title :: string
  d_source_type :: source_kind
  d_source_url :: "string option"
  d_created_at :: "int option"

record chunk_row =
  c_id :: uuid
  document_id :: uuid
  c_content :: string
  embedding :: "vector option"
  chunk_index :: int
  c_created_at :: "int option"

record database =
  documents :: "document_row list"
  chunks :: "chunk_row list"

text \<open>The dimension in \<^verbatim>\<open>vector(768)\<close>, of the column and of the function's parameter.\<close>

definition embedding_dim :: nat where
  "embedding_dim = 768"

text \<open>
  What the type of the \<open>embedding\<close> column makes true of every state of the
  \<open>chunks\<close> table: an embedding that is not null has 768 components. That \<open>id\<close> is
  the primary key is written \<open>distinct (map c_id (chunks db))\<close> where it is needed.
\<close>

definition column_types :: "database \<Rightarrow> bool" where
  "column_types db =
     (\<forall>c\<in>set (chunks db). \<forall>e. embedding c = Some e \<longrightarrow> length e = embedding_dim)"

text \<open>
  A \<^verbatim>\<open>float8\<close> value: a number, here a real (rounding is not modelled), or \<open>NaN\<close>.
  \<open>float8_le\<close> is PostgreSQL's order of these values: \<open>NaN\<close> equals itself and
  is greater than every number.
\<close>

datatype float8 = Num real | NaN

fun float8_le :: "float8 \<Rightarrow> float8 \<Rightarrow> bool" where
  "float8_le _ NaN = True"
| "float8_le NaN (Num b) = False"
| "float8_le (Num a) (Num b) = (a \<le> b)"

fun one_minus :: "float8 \<Rightarrow> float8" where
  "one_minus (Num d) = Num (1 - d)"
| "one_minus NaN = NaN"

text \<open>
  pgvector's cosine distance \<^verbatim>\<open><=>\<close> on two vectors of one dimension: 1 minus
  the dot product divided by the root of the product of the squared norms. When
  one of the vectors is zero the quotient is \<open>0 / 0\<close>, and the distance is \<open>NaN\<close>.
  The operator raises an error on vectors of different dimensions and is null on
  a null operand.
\<close>

definition dot :: "vector \<Rightarrow> vector \<Rightarrow> real" where
  "dot a b = (\<Sum>(x, y)\<leftarrow>zip a b. x * y)"

definition cosine_distance :: "vector \<Rightarrow> vector \<Rightarrow> float8" where
  "cosine_distance a b =
     (if dot a a * dot b b = 0 then NaN
      else Num (1 - dot a b / sqrt (dot a a * dot b b)))"

datatype sql_error =
  Different_dimensions nat nat
  | Negative_limit
  | Wrong_dimension nat
  | Foreign_key_violation
  | Unique_violation

definition distance_op :: "vector option \<Rightarrow> vector \<Rightarrow> sql_error + float8 option" where
  "distance_op e q =
     (case e of
        None \<Rightarrow> Inr None
      | Some v \<Rightarrow>
          if length v \<noteq> length q then Inl (Different_dimensions (length v) (length q))
          else Inr (Some (cosine_distance v q)))"

text \<open>
  The rows a scan hands on, each with its distance to the query; the first error
  of the operator ends the statement.
\<close>

fun with_distances :: "vector \<Rightarrow> chunk_row list \<Rightarrow> sql_error + (chunk_row \<times> float8 option) list" where
  "with_distances q [] = Inr []"
| "with_distances q (c # cs) =
     (case distance_op (embedding c) q of
        Inl err \<Rightarrow> Inl err
      | Inr d \<Rightarrow>
          (case with_distances q cs of
             Inl err \<Rightarrow> Inl err
           | Inr ds \<Rightarrow> Inr ((c, d) # ds)))"

text \<open>
  \<^verbatim>\<open>order by embedding <=> query_embedding\<close>: ascending in PostgreSQL's order,
  so numbers first, then \<open>NaN\<close>, and nulls last. SQL leaves the order of rows with
  equal keys open; this insertion sort keeps them in table order.
\<close>

fun dist_le :: "float8 option \<Rightarrow> float8 option \<Rightarrow> bool" where
  "dist_le _ None = True"
| "dist_le None (Some b) = False"
| "dist_le (Some a) (Some b) = float8_le a b"

fun insert_by :: "chunk_row \<times> float8 option \<Rightarrow> (chunk_row \<times> float8 option) list
    \<Rightarrow> (chunk_row \<times> float8 option) list" where
  "insert_by x [] = [x]"
| "insert_by x (y # ys) =
     (if dist_le (snd x) (snd y) then x # y # ys else y # insert_by x ys)"

fun order_by :: "(chunk_row \<times> float8 option) list \<Rightarrow> (chunk_row \<times> float8 option) list" where
  "order_by [] = []"
| "order_by (x # xs) = insert_by x (order_by xs)"

text \<open>The row type the function returns: \<^verbatim>\<open>table (id uuid, content text, similarity float)\<close>.\<close>

record match_row =
  m_id :: uuid
  m_content :: string
  similarity :: "float8 option"

definition select_row :: "chunk_row \<times> float8 option \<Rightarrow> match_row" where
  "select_row x =
     \<lparr>m_id = c_id (fst x), m_content = c_content (fst x),
      similarity = map_option one_minus (snd x)\<rparr>"

text \<open>
  The script builds an \<^verbatim>\<open>ivfflat\<close> index on the \<open>embedding\<close> column, so the
  statement of \<open>match_chunks\<close> can be answered in two ways. \<open>Seq_scan\<close> reads the
  table: the rows that pass the \<^verbatim>\<open>where\<close> clause are sorted by their distance.
  \<open>Index_scan probed\<close> reads the index: it holds only the \<open>indexed\<close> rows, those
  whose embedding is neither null nor a vector of norm zero (\<^verbatim>\<open>vector_cosine_ops\<close>
  leaves both out), and visits only the rows of the lists it probes (\<open>probed\<close> says
  which rows these are; which lists are probed depends on the index and is left
  open), it returns the visited rows in ascending distance, and the \<^verbatim>\<open>where\<close>
  clause and the \<^verbatim>\<open>limit\<close> are applied to what it returns. The index first
  compares the query with the centres of its lists, which have the dimension of
  the column.
\<close>

datatype plan = Seq_scan | Index_scan "chunk_row \<Rightarrow> bool"

definition indexed :: "chunk_row \<Rightarrow> bool" where
  "indexed c = (case embedding c of None \<Rightarrow> False | Some e \<Rightarrow> dot e e \<noteq> 0)"

text \<open>
  \<open>match_chunks\<close>. \<open>match_count\<close> is \<open>None\<close> when the caller leaves the argument
  out, and then takes its default 5. A negative \<^verbatim>\<open>limit\<close> is an error of the
  statement, raised before any row is read; with \<^verbatim>\<open>limit 0\<close> no row is read and
  no distance computed. The declared type \<^verbatim>\<open>vector(768)\<close> of the parameter is not
  checked at the call (PostgreSQL keeps no type modifier on a function's
  parameters): a query of another dimension fails only where it is compared.
\<close>

definition match_chunks :: "plan \<Rightarrow> database \<Rightarrow> vector \<Rightarrow> uuid \<Rightarrow> int option
    \<Rightarrow> sql_error + match_row list" where
  "match_chunks plan db query_embedding doc match_count =
     (let n = (case match_count of None \<Rightarrow> 5 | Some k \<Rightarrow> k) in
      if n < 0 then Inl Negative_limit
      else if n = 0 then Inr []
      else (case plan of
              Seq_scan \<Rightarrow>
                (case with_distances query_embedding
                        (filter (\<lambda>c. document_id c = doc) (chunks db)) of
                   Inl err \<Rightarrow> Inl err
                 | Inr rows \<Rightarrow> Inr (map select_row (take (nat n) (order_by rows))))
            | Index_scan probed \<Rightarrow>
                if length query_embedding \<noteq> embedding_dim
                then Inl (Different_dimensions embedding_dim (length query_embedding))
                else (case with_distances query_embedding
                             (filter (\<lambda>c. probed c \<and> indexed c) (chunks db)) of
                        Inl err \<Rightarrow> Inl err
                      | Inr rows \<Rightarrow>
                          Inr (map select_row
                                (take (nat n)
                                  (filter (\<lambda>x. document_id (fst x) = doc) (order_by rows)))))))"

section \<open>The writes to the vector store\<close>

text \<open>
  Modelled from the spec: the writing side of the Vector Store Adapter, whose
  code is not among the sources: the creation of a Document (\<open>created once per
  successful ingestion\<close>), \<open>upsert(document_id, [(chunk_index, content, embedding)])\<close>
  and the deletion of a Document, which \<open>cascades to its Chunks\<close>. The schema
  under \<open>src/\<close> decides what a write must satisfy: the keys, the reference to
  \<open>documents\<close> and the dimension of \<^verbatim>\<open>vector(768)\<close>. Each new chunk comes with the
  \<open>id\<close> the database generates for it (\<^verbatim>\<open>gen_random_uuid()\<close>), and \<open>now\<close> is the
  clock. A write that fails leaves the database as it was.
\<close>

datatype store_op =
  Create_document document_row
  | Upsert uuid int "(uuid \<times> int \<times> string \<times> vector) list"
  | Delete_document uuid

definition empty_database :: database where
  "empty_database = \<lparr>documents = [], chunks = []\<rparr>"

text \<open>
  Modelled from the spec: the creation of a Document row; the primary key of the
  schema refuses a second row with the same \<open>id\<close>.
\<close>

definition create_document :: "document_row \<Rightarrow> database \<Rightarrow> sql_error + database" where
  "create_document d db =
     (if d_id d \<in> d_id ` set (documents db) then Inl Unique_violation
      else Inr (db\<lparr>documents := documents db @ [d]\<rparr>))"

text \<open>
  Modelled from the spec: \<open>upsert\<close>, which writes the chunk and embedding pairs
  of one document \<open>in their original ordinal order\<close> and keeps nothing of a batch
  that fails. The checks are the schema's: the document must exist, every
  embedding must have 768 components, and no \<open>id\<close> may be taken.
\<close>

definition new_row :: "uuid \<Rightarrow> int \<Rightarrow> uuid \<times> int \<times> string \<times> vector \<Rightarrow> chunk_row" where
  "new_row doc now item =
     (case item of (i, idx, text, e) \<Rightarrow>
        \<lparr>c_id = i, document_id = doc, c_content = text, embedding = Some e,
         chunk_index = idx, c_created_at = Some now\<rparr>)"

definition upsert :: "uuid \<Rightarrow> int \<Rightarrow> (uuid \<times> int \<times> string \<times> vector) list \<Rightarrow> database
    \<Rightarrow> sql_error + database" where
  "upsert doc now items db =
     (if doc \<notin> d_id ` set (documents db) then Inl Foreign_key_violation
      else (case find (\<lambda>item. length (snd (snd (snd item))) \<noteq> embedding_dim) items of
              Some item \<Rightarrow> Inl (Wrong_dimension (length (snd (snd (snd item)))))
            | None \<Rightarrow>
                if \<not> distinct (map fst items)
                   \<or> (\<exists>i\<in>set (map fst items). i \<in> c_id ` set (chunks db))
                then Inl Unique_violation
                else Inr (db\<lparr>chunks := chunks db @ map (new_row doc now) items\<rparr>)))"

text \<open>
  Modelled from the spec: the deletion of a Document; \<^verbatim>\<open>on delete cascade\<close> in the
  schema removes its chunks with it.
\<close>

definition delete_document :: "uuid \<Rightarrow> database \<Rightarrow> database" where
  "delete_document doc db =
     db\<lparr>documents := filter (\<lambda>d. d_id d \<noteq> doc) (documents db),
        chunks := filter (\<lambda>c. document_id c \<noteq> doc) (chunks db)\<rparr>"

fun apply_op :: "store_op \<Rightarrow> database \<Rightarrow> sql_error + database" where
  "apply_op (Create_document d) db = create_document d db"
| "apply_op (Upsert doc now items) db = upsert doc now items db"
| "apply_op (Delete_document doc) db = Inr (delete_document doc db)"

text \<open>
  Modelled from the spec: the store after a sequence of writes, each one a
  transaction of its own.
\<close>

fun run_ops :: "store_op list \<Rightarrow> database \<Rightarrow> database" where
  "run_ops [] db = db"
| "run_ops (op # ops) db =
     run_ops ops (case apply_op op db of Inl err \<Rightarrow> db | Inr db' \<Rightarrow> db')"

section \<open>The Provider Rotation Engine\<close>

text \<open>
  Modelled from the spec: the Provider Rotation Engine of section 4.3, whose
  code is not among the sources. A candidate is a (provider, model) pair; its
  priority is its place in the list. A response is a success or a failure
  already classified as transient (rate limit, timeout, 5xx) or permanent, with
  its reason. \<open>respond n c\<close> is what candidate \<open>c\<close> answers to the \<open>n\<close>-th attempt
  the engine makes.
\<close>

record candidate =
  provider :: string
  model :: string

datatype failure_class = Transient | Permanent

datatype 'r response_class = Success 'r | Failure failure_class string

text \<open>
  Modelled from the spec: the states \<open>Pending\<close>, \<open>Attempting(candidate)\<close>,
  \<open>Succeeded\<close>, \<open>Retrying(candidate)\<close>, \<open>Advancing\<close> and \<open>Exhausted\<close>, and the state
  of one request: the candidates not yet selected, the retries spent on the
  current candidate, the attempts made, and the failure reason of each candidate
  left behind, in attempt order. It is a value threaded through the transitions,
  not shared between requests.
\<close>

datatype 'r engine_state =
  Pending
  | Attempting candidate
  | Retrying candidate
  | Advancing
  | Succeeded 'r candidate
  | Exhausted

record 'r machine =
  state :: "'r engine_state"
  remaining :: "candidate list"
  retries :: nat
  attempts :: nat
  failures :: "(candidate \<times> string) list"

definition start :: "candidate list \<Rightarrow> 'r machine" where
  "start candidates =
     \<lparr>state = Pending, remaining = candidates, retries = 0, attempts = 0, failures = []\<rparr>"

text \<open>
  Modelled from the spec: "\<open>Advancing\<close> selects the next candidate in priority
  order; if none remain, transitions to \<open>Exhausted\<close>". \<open>Pending\<close> selects the
  first candidate the same way.
\<close>

definition select_next :: "'r machine \<Rightarrow> 'r machine" where
  "select_next m =
     (case remaining m of
        [] \<Rightarrow> m\<lparr>state := Exhausted\<rparr>
      | c # cs \<Rightarrow> m\<lparr>state := Attempting c, remaining := cs, retries := 0\<rparr>)"

text \<open>
  Modelled from the spec: the transitions. From \<open>Attempting(c)\<close> a success leads to
  \<open>Succeeded\<close> with the candidate attached; a transient failure to \<open>Retrying(c)\<close>
  while the retries spent are below the per-candidate ceiling, and to \<open>Advancing\<close>
  beyond it; a permanent failure to \<open>Advancing\<close> at once. \<open>Retrying(c)\<close> (the
  backoff) leads back to \<open>Attempting(c)\<close>. The spec names a global cap on attempts
  among the inputs and gives it no transition; none is modelled.
\<close>

definition step :: "nat \<Rightarrow> (nat \<Rightarrow> candidate \<Rightarrow> 'r response_class) \<Rightarrow> 'r machine \<Rightarrow> 'r machine" where
  "step retry_ceiling respond m =
     (case state m of
        Pending \<Rightarrow> select_next m
      | Attempting c \<Rightarrow>
          (case respond (attempts m) c of
             Success r \<Rightarrow> m\<lparr>state := Succeeded r c, attempts := Suc (attempts m)\<rparr>
           | Failure Transient reason \<Rightarrow>
               if retries m < retry_ceiling
               then m\<lparr>state := Retrying c, retries := Suc (retries m),
                      attempts := Suc (attempts m)\<rparr>
               else m\<lparr>state := Advancing, attempts := Suc (attempts m),
                      failures := failures m @ [(c, reason)]\<rparr>
           | Failure Permanent reason \<Rightarrow>
               m\<lparr>state := Advancing, attempts := Suc (attempts m),
                 failures := failures m @ [(c, reason)]\<rparr>)
      | Retrying c \<Rightarrow> m\<lparr>state := Attempting c\<rparr>
      | Advancing \<Rightarrow> select_next m
      | Succeeded r c \<Rightarrow> m
      | Exhausted \<Rightarrow> m)"

text \<open>The candidate a request is at, if any.\<close>

fun in_hand :: "'r machine \<Rightarrow> candidate list" where
  "in_hand m =
     (case state m of
        Attempting c \<Rightarrow> [c]
      | Retrying c \<Rightarrow> [c]
      | _ \<Rightarrow> [])"

fun terminal :: "'r engine_state \<Rightarrow> bool" where
  "terminal (Succeeded r c) = True"
| "terminal Exhausted = True"
| "terminal _ = False"

text \<open>
  The number of transitions a request can still make, at most: it falls with
  every transition out of a state that is not terminal.
\<close>

fun state_rank :: "nat \<Rightarrow> 'r machine \<Rightarrow> nat" where
  "state_rank retry_ceiling m =
     (case state m of
        Pending \<Rightarrow> 1
      | Attempting c \<Rightarrow> 2 * (retry_ceiling - retries m) + 2
      | Retrying c \<Rightarrow> 2 * (retry_ceiling - retries m) + 3
      | Advancing \<Rightarrow> 1
      | Succeeded r c \<Rightarrow> 0
      | Exhausted \<Rightarrow> 0)"

definition steps_left :: "nat \<Rightarrow> 'r machine \<Rightarrow> nat" where
  "steps_left retry_ceiling m = length (remaining m) * (2 * retry_ceiling + 4) + state_rank retry_ceiling m"

text \<open>
  Modelled from the spec: the engine runs the transitions until it reaches
  \<open>Succeeded\<close> or \<open>Exhausted\<close>.
\<close>

function run :: "nat \<Rightarrow> (nat \<Rightarrow> candidate \<Rightarrow> 'r response_class) \<Rightarrow> 'r machine \<Rightarrow> 'r machine" where
  "run retry_ceiling respond m =
     (if terminal (state m) then m else run retry_ceiling respond (step retry_ceiling respond m))"
  by pat_completeness auto
termination
proof (relation "measure (\<lambda>(retry_ceiling, respond, m). steps_left retry_ceiling m)")
  show "wf (measure (\<lambda>(retry_ceiling, respond, m). steps_left retry_ceiling m))"
    by simp
next
  fix retry_ceiling :: nat and respond :: "nat \<Rightarrow> candidate \<Rightarrow> 'r response_class" and m :: "'r machine"
  assume "\<not> terminal (state m)"
  then have "steps_left retry_ceiling (step retry_ceiling respond m) < steps_left retry_ceiling m"
    by (cases "state m")
      (auto simp: steps_left_def step_def select_next_def
        split: list.splits response_class.splits failure_class.splits)
  then show "((retry_ceiling, respond, step retry_ceiling respond m), retry_ceiling, respond, m)
      \<in> measure (\<lambda>(retry_ceiling, respond, m). steps_left retry_ceiling m)"
    by simp
qed

declare run.simps [simp del]

text \<open>
  Modelled from the spec: what the engine returns: the result with the identity
  of the candidate that produced it, or \<open>AllProvidersFailed\<close> with the failure
  reason of each attempted candidate, in attempt order.
\<close>

datatype 'r generation_outcome =
  Generated 'r candidate
  | AllProvidersFailed "(candidate \<times> string) list"

definition outcome :: "'r machine \<Rightarrow> 'r generation_outcome option" where
  "outcome m =
     (case state m of
        Succeeded r c \<Rightarrow> Some (Generated r c)
      | Exhausted \<Rightarrow> Some (AllProvidersFailed (failures m))
      | _ \<Rightarrow> None)"

definition generate :: "nat \<Rightarrow> (nat \<Rightarrow> candidate \<Rightarrow> 'r response_class) \<Rightarrow> candidate list
    \<Rightarrow> 'r generation_outcome option" where
  "generate retry_ceiling respond candidates = outcome (run retry_ceiling respond (start candidates))"

section \<open>The quiz output parser\<close>

text \<open>
  Modelled from the spec: the output parser of the Quiz task (sections 4.4 and
  8), whose code is not among the sources; the client only declares, as
  \<open>QuizQuestion\<close>, the type of what the parser lets through. A \<open>raw_question\<close> is
  the candidate's output for one question once it has been read as JSON: the
  question text, the members of \<open>options\<close> as (label, text) pairs in the order
  written, \<open>correct_answer\<close> as text, and the explanation when it is a string.
\<close>

record raw_question =
  raw_text :: string
  raw_options :: "(string \<times> string) list"
  raw_correct_answer :: string
  raw_explanation :: "string option"

fun label_of :: "string \<Rightarrow> option_label option" where
  "label_of s =
     (if s = ''A'' then Some Label_A
      else if s = ''B'' then Some Label_B
      else if s = ''C'' then Some Label_C
      else if s = ''D'' then Some Label_D
      else None)"

fun label_text :: "option_label \<Rightarrow> string" where
  "label_text Label_A = ''A''"
| "label_text Label_B = ''B''"
| "label_text Label_C = ''C''"
| "label_text Label_D = ''D''"

text \<open>\<^verbatim>\<open>question.options[key]\<close>, as the quiz page reads an option.\<close>

fun option_text :: "quiz_options \<Rightarrow> option_label \<Rightarrow> string" where
  "option_text os Label_A = opt_A os"
| "option_text os Label_B = opt_B os"
| "option_text os Label_C = opt_C os"
| "option_text os Label_D = opt_D os"

text \<open>
  Modelled from the spec: the parser accepts a question that has exactly four
  labeled options A to D, a \<open>correct_answer\<close> that is one of these labels, and an
  explanation string, and in which the option that \<open>correct_answer\<close> names is
  present and non-empty; it rejects (\<open>None\<close>) any other.
\<close>

definition parse_question :: "raw_question \<Rightarrow> QuizQuestion option" where
  "parse_question raw =
     (if length (raw_options raw) = 4
         \<and> set (map fst (raw_options raw)) = {''A'', ''B'', ''C'', ''D''}
      then (case (label_of (raw_correct_answer raw), raw_explanation raw) of
              (Some l, Some ex) \<Rightarrow>
                (let os = \<lparr>opt_A = the (map_of (raw_options raw) ''A''),
                           opt_B = the (map_of (raw_options raw) ''B''),
                           opt_C = the (map_of (raw_options raw) ''C''),
                           opt_D = the (map_of (raw_options raw) ''D'')\<rparr>
                 in if option_text os l = [] then None
                    else Some \<lparr>question = raw_text raw, options = os,
                               correct_answer = l, explanation = ex\<rparr>)
            | _ \<Rightarrow> None)
      else None)"

section \<open>Sample inputs\<close>

definition sample_history :: "ChatMessage list" where
  "sample_history =
     [\<lparr>role = Assistant, content = ''Hello'', timestamp = Some 1\<rparr>,
      \<lparr>role = User, content = ''What is RAG?'', timestamp = Some 2\<rparr>,
      \<lparr>role = Assistant, content = [], timestamp = Some 3\<rparr>,
      \<lparr>role = User, content = ''And then?'', timestamp = None\<rparr>]"

definition sample_document :: DocumentInfo where
  "sample_document = \<lparr>doc_id = ''d1'', title = ''Notes'', source_type = Pdf\<rparr>"

definition sample_store :: LearningStore where
  "sample_store =
     \<lparr>currentDocument = Some sample_document,
      flashcards = [\<lparr>fc_question = ''Q'', fc_answer = ''A''\<rparr>],
      quizQuestions = [],
      chatHistory = sample_history\<rparr>"

text \<open>
  \<open>JSON_parse_table\<close> is \<^verbatim>\<open>JSON.parse\<close> on the four payloads listed; every other
  string it is applied to below is not JSON, where \<^verbatim>\<open>JSON.parse\<close> throws.
\<close>

definition hel_chunk :: ChatStreamChunk where
  "hel_chunk = \<lparr>chunk_content = ''Hel'', chunk_done = False, chunk_error = None\<rparr>"

definition lo_chunk :: ChatStreamChunk where
  "lo_chunk = \<lparr>chunk_content = ''lo'', chunk_done = False, chunk_error = None\<rparr>"

definition done_chunk :: ChatStreamChunk where
  "done_chunk = \<lparr>chunk_content = [], chunk_done = True, chunk_error = None\<rparr>"

definition error_chunk :: ChatStreamChunk where
  "error_chunk = \<lparr>chunk_content = [], chunk_done = False, chunk_error = Some ''boom''\<rparr>"

definition JSON_parse_table :: "string \<Rightarrow> ChatStreamChunk option" where
  "JSON_parse_table s =
     (if s = ''{\"content\":\"Hel\",\"done\":false}'' then Some hel_chunk
      else if s = ''{\"content\":\"lo\",\"done\":false}'' then Some lo_chunk
      else if s = ''{\"content\":\"\",\"done\":true}'' then Some done_chunk
      else if s = ''{\"content\":\"\",\"done\":false,\"error\":\"boom\"}'' then Some error_chunk
      else None)"

text \<open>A successful response whose body delivers the given pieces.\<close>

definition sample_fetch :: "string list \<Rightarrow> read_end \<Rightarrow> chat_request \<Rightarrow> string + response" where
  "sample_fetch pieces e req =
     Inr \<lparr>res_ok = True, res_json_detail = None, res_body = Some (pieces, e)\<rparr>"

text \<open>
  A body of two reads, cut in the middle of a line that is not JSON, and the same
  body without that line.
\<close>

definition pieces_malformed :: "string list" where
  "pieces_malformed =
     [''data: {\"content\":\"Hel\",\"done\":false}\<newline>data: {oops'',
      ''\<newline>data: {\"content\":\"lo\",\"done\":false}\<newline>\<newline>data: {\"content\":\"\",\"done\":true}\<newline>\<newline>'']"

definition pieces_wellformed :: "string list" where
  "pieces_wellformed =
     [''data: {\"content\":\"Hel\",\"done\":false}\<newline>'',
      ''data: {\"content\":\"lo\",\"done\":false}\<newline>\<newline>data: {\"content\":\"\",\"done\":true}\<newline>\<newline>'']"

text \<open>A body whose first chunk carries an error and \<open>done = false\<close>, and that ends without a \<open>done\<close> chunk.\<close>

definition pieces_error :: "string list" where
  "pieces_error =
     [''data: {\"content\":\"\",\"done\":false,\"error\":\"boom\"}\<newline>\<newline>data: {\"content\":\"lo\",\"done\":false}\<newline>\<newline>'']"

definition sample_page :: page_state where
  "sample_page = \<lparr>input = '' And then? '', isStreaming = False\<rparr>"

text \<open>
  Four embeddings of 768 components: all ones, all minus ones, half of each, and
  all zeros. Against the first as the query their cosine distances are 0, 2, 1
  and \<open>NaN\<close>.
\<close>

definition vec_pos :: vector where
  "vec_pos = replicate 768 1"

definition vec_neg :: vector where
  "vec_neg = replicate 768 (- 1)"

definition vec_mix :: vector where
  "vec_mix = replicate 384 1 @ replicate 384 (- 1)"

definition vec_zero :: vector where
  "vec_zero = replicate 768 0"

text \<open>
  A database of two documents: five chunks of \<open>doc-a\<close>, one of them without an
  embedding and one with the zero vector, and one chunk of \<open>doc-b\<close>.
\<close>

definition chunk_c1 :: chunk_row where
  "chunk_c1 = \<lparr>c_id = ''c1'', document_id = ''doc-a'', c_content = ''alpha'',
     embedding = Some vec_neg, chunk_index = 0, c_created_at = Some 1\<rparr>"

definition chunk_c2 :: chunk_row where
  "chunk_c2 = \<lparr>c_id = ''c2'', document_id = ''doc-a'', c_content = ''beta'',
     embedding = None, chunk_index = 1, c_created_at = Some 1\<rparr>"

definition chunk_c3 :: chunk_row where
  "chunk_c3 = \<lparr>c_id = ''c3'', document_id = ''doc-a'', c_content = ''gamma'',
     embedding = Some vec_pos, chunk_index = 2, c_created_at = Some 1\<rparr>"

definition chunk_c4 :: chunk_row where
  "chunk_c4 = \<lparr>c_id = ''c4'', document_id = ''doc-a'', c_content = ''delta'',
     embedding = Some vec_mix, chunk_index = 3, c_created_at = Some 1\<rparr>"

definition chunk_c5 :: chunk_row where
  "chunk_c5 = \<lparr>c_id = ''c5'', document_id = ''doc-b'', c_content = ''other'',
     embedding = Some vec_pos, chunk_index = 0, c_created_at = Some 2\<rparr>"

definition chunk_c6 :: chunk_row where
  "chunk_c6 = \<lparr>c_id = ''c6'', document_id = ''doc-a'', c_content = ''zeta'',
     embedding = Some vec_zero, chunk_index = 4, c_created_at = Some 1\<rparr>"

definition sample_chunks :: "chunk_row list" where
  "sample_chunks = [chunk_c1, chunk_c2, chunk_c3, chunk_c4, chunk_c5, chunk_c6]"

definition doc_a :: document_row where
  "doc_a = \<lparr>d_id = ''doc-a'', d_title = ''Notes'', d_source_type = Pdf,
     d_source_url = None, d_created_at = Some 1\<rparr>"

definition doc_b :: document_row where
  "doc_b = \<lparr>d_id = ''doc-b'', d_title = ''Talk'', d_source_type = Youtube,
     d_source_url = Some ''https://youtu.be/x'', d_created_at = Some 2\<rparr>"

definition sample_db :: database where
  "sample_db = \<lparr>documents = [doc_a, doc_b], chunks = sample_chunks\<rparr>"

text \<open>
  A sequence of writes: a document, two of its chunks, then two batches that the
  schema refuses (an embedding of three components, a document that does not
  exist).
\<close>

definition sample_ops :: "store_op list" where
  "sample_ops =
     [Create_document doc_a,
      Upsert ''doc-a'' 1 [(''c1'', 0, ''alpha'', vec_neg), (''c3'', 2, ''gamma'', vec_pos)],
      Upsert ''doc-a'' 3 [(''c9'', 0, ''short'', [1, 2, 3])],
      Upsert ''doc-z'' 4 [(''c8'', 0, ''orphan'', vec_pos)]]"

definition sample_rows :: "match_row list" where
  "sample_rows =
     [\<lparr>m_id = ''c3'', m_content = ''gamma'', similarity = Some (Num 1)\<rparr>,
      \<lparr>m_id = ''c4'', m_content = ''delta'', similarity = Some (Num 0)\<rparr>,
      \<lparr>m_id = ''c1'', m_content = ''alpha'', similarity = Some (Num (- 1))\<rparr>,
      \<lparr>m_id = ''c6'', m_content = ''zeta'', similarity = Some NaN\<rparr>,
      \<lparr>m_id = ''c2'', m_content = ''beta'', similarity = None\<rparr>]"

text \<open>
  Three candidates that all fail: the first and the last transiently on every
  attempt, the second permanently.
\<close>

definition qwen :: candidate where
  "qwen = \<lparr>provider = ''openrouter'', model = ''qwen''\<rparr>"

definition llama :: candidate where
  "llama = \<lparr>provider = ''openrouter'', model = ''llama''\<rparr>"

definition gemini :: candidate where
  "gemini = \<lparr>provider = ''google'', model = ''gemini''\<rparr>"

definition sample_respond :: "nat \<Rightarrow> candidate \<Rightarrow> string response_class" where
  "sample_respond n c =
     (if model c = ''llama'' then Failure Permanent ''auth''
      else if model c = ''qwen'' then Failure Transient ''429''
      else Failure Transient ''timeout'')"

text \<open>
  A well-formed question whose correct answer is B, the same question without
  its option B, and the same with an empty option B.
\<close>

definition raw_good :: raw_question where
  "raw_good =
     \<lparr>raw_text = ''What does RAG retrieve?'',
      raw_options = [(''A'', ''weights''), (''B'', ''chunks''), (''C'', ''tokens''),
                     (''D'', ''prompts'')],
      raw_correct_answer = ''B'',
      raw_explanation = Some ''Retrieval returns stored chunks.''\<rparr>"

definition raw_missing :: raw_question where
  "raw_missing = raw_good\<lparr>raw_options :=
     [(''A'', ''weights''), (''C'', ''tokens''), (''D'', ''prompts'')]\<rparr>"

definition raw_empty :: raw_question where
  "raw_empty = raw_good\<lparr>raw_options :=
     [(''A'', ''weights''), (''B'', []), (''C'', ''tokens''), (''D'', ''prompts'')]\<rparr>"

section \<open>Properties of the store\<close>

lemma update_loop_none:
  "\<forall>j<n. role (h ! j) \<noteq> Assistant \<Longrightarrow> update_loop h c n = h"
  by (induction n) simp_all

lemma length_update_loop: "length (update_loop h c n) = length h"
  by (induction n) simp_all

lemma update_loop_last:
  "i < n \<Longrightarrow> role (h ! i) = Assistant \<Longrightarrow>
   \<forall>j. i < j \<and> j < n \<longrightarrow> role (h ! j) \<noteq> Assistant \<Longrightarrow>
   update_loop h c n = h[i := (h ! i)\<lparr>content := c\<rparr>]"
proof (induction n)
  case 0
  then show ?case by simp
next
  case (Suc n)
  show ?case
  proof (cases "i = n")
    case True
    with Suc.prems show ?thesis by simp
  next
    case False
    with Suc.prems have lt: "i < n" and other: "role (h ! n) \<noteq> Assistant"
      by auto
    from Suc.prems have "\<forall>j. i < j \<and> j < n \<longrightarrow> role (h ! j) \<noteq> Assistant"
      by auto
    with Suc.IH lt Suc.prems(2) have "update_loop h c n = h[i := (h ! i)\<lparr>content := c\<rparr>]"
      by blast
    with other show ?thesis by simp
  qed
qed

text \<open>
  C9. \<open>updateLastAssistantMessage\<close> leaves \<open>currentDocument\<close>, \<open>flashcards\<close> and
  \<open>quizQuestions\<close> as they are and keeps the length of the history. A history with
  no assistant message is returned unchanged. Otherwise, with \<open>i\<close> the index of the
  most recent assistant message, the new history is the old one with message \<open>i\<close>
  replaced: its content is the new content, its role and timestamp are the old
  ones, and every other message is the old message.
\<close>

theorem updateLastAssistantMessage_frame:
  fixes s :: LearningStore and c :: string
  defines "h \<equiv> chatHistory s"
  defines "h' \<equiv> chatHistory (updateLastAssistantMessage c s)"
  shows "currentDocument (updateLastAssistantMessage c s) = currentDocument s
    \<and> flashcards (updateLastAssistantMessage c s) = flashcards s
    \<and> quizQuestions (updateLastAssistantMessage c s) = quizQuestions s
    \<and> length h' = length h
    \<and> ((\<forall>j<length h. role (h ! j) \<noteq> Assistant) \<longrightarrow> h' = h)
    \<and> (\<forall>i<length h. role (h ! i) = Assistant
          \<and> (\<forall>j. i < j \<and> j < length h \<longrightarrow> role (h ! j) \<noteq> Assistant) \<longrightarrow>
          content (h' ! i) = c \<and> role (h' ! i) = role (h ! i)
          \<and> timestamp (h' ! i) = timestamp (h ! i)
          \<and> (\<forall>j<length h. j \<noteq> i \<longrightarrow> h' ! j = h ! j))"
proof -
  have frame: "currentDocument (updateLastAssistantMessage c s) = currentDocument s
    \<and> flashcards (updateLastAssistantMessage c s) = flashcards s
    \<and> quizQuestions (updateLastAssistantMessage c s) = quizQuestions s"
    by (simp add: updateLastAssistantMessage_def)
  have h': "h' = update_loop h c (length h)"
    by (simp add: h'_def h_def updateLastAssistantMessage_def)
  have none: "(\<forall>j<length h. role (h ! j) \<noteq> Assistant) \<longrightarrow> h' = h"
    by (simp add: h' update_loop_none)
  have some: "content (h' ! i) = c \<and> role (h' ! i) = role (h ! i)
      \<and> timestamp (h' ! i) = timestamp (h ! i)
      \<and> (\<forall>j<length h. j \<noteq> i \<longrightarrow> h' ! j = h ! j)"
    if "i < length h" "role (h ! i) = Assistant"
      "\<forall>j. i < j \<and> j < length h \<longrightarrow> role (h ! j) \<noteq> Assistant" for i
  proof -
    from that have "h' = h[i := (h ! i)\<lparr>content := c\<rparr>]"
      by (simp add: h' update_loop_last)
    with that(1) show ?thesis by simp
  qed
  have len: "length h' = length h"
    by (simp add: h' length_update_loop)
  from frame len none some show ?thesis by blast
qed

theorem updateLastAssistantMessage_frame_witness:
  "chatHistory (updateLastAssistantMessage ''Retrieval'' sample_store) =
     [\<lparr>role = Assistant, content = ''Hello'', timestamp = Some 1\<rparr>,
      \<lparr>role = User, content = ''What is RAG?'', timestamp = Some 2\<rparr>,
      \<lparr>role = Assistant, content = ''Retrieval'', timestamp = Some 3\<rparr>,
      \<lparr>role = User, content = ''And then?'', timestamp = None\<rparr>]
   \<and> flashcards (updateLastAssistantMessage ''Retrieval'' sample_store) = flashcards sample_store
   \<and> chatHistory (updateLastAssistantMessage ''x'' (sample_store\<lparr>chatHistory := drop 3 sample_history\<rparr>))
       = drop 3 sample_history"
proof -
  let ?h = "chatHistory sample_store"
  let ?h' = "chatHistory (updateLastAssistantMessage ''Retrieval'' sample_store)"
  have h: "?h = sample_history"
    by (simp add: sample_store_def)
  have len: "length ?h = 4"
    by (simp add: h sample_history_def)
  have nth: "?h ! 0 = \<lparr>role = Assistant, content = ''Hello'', timestamp = Some 1\<rparr>"
    "?h ! 1 = \<lparr>role = User, content = ''What is RAG?'', timestamp = Some 2\<rparr>"
    "?h ! 2 = \<lparr>role = Assistant, content = [], timestamp = Some 3\<rparr>"
    "?h ! 3 = \<lparr>role = User, content = ''And then?'', timestamp = None\<rparr>"
    by (simp_all add: h sample_history_def)
  have three: "j = 3" if "2 < j" "j < 4" for j :: nat
    using that by arith
  have last_one: "role (?h ! 2) = Assistant
    \<and> (\<forall>j. 2 < j \<and> j < length ?h \<longrightarrow> role (?h ! j) \<noteq> Assistant)"
  proof -
    have "role (?h ! j) \<noteq> Assistant" if "2 < j" "j < 4" for j
      using three [OF that] by (simp add: nth)
    then show ?thesis by (simp add: len nth)
  qed
  note frame = updateLastAssistantMessage_frame [where s = sample_store and c = "''Retrieval''"]
  from frame have len': "length ?h' = 4"
    by (simp add: len)
  from frame have "\<forall>i<length ?h. role (?h ! i) = Assistant
          \<and> (\<forall>j. i < j \<and> j < length ?h \<longrightarrow> role (?h ! j) \<noteq> Assistant) \<longrightarrow>
          content (?h' ! i) = ''Retrieval'' \<and> role (?h' ! i) = role (?h ! i)
          \<and> timestamp (?h' ! i) = timestamp (?h ! i)
          \<and> (\<forall>j<length ?h. j \<noteq> i \<longrightarrow> ?h' ! j = ?h ! j)"
    by blast
  from this [rule_format, of 2] last_one
  have upd: "content (?h' ! 2) = ''Retrieval''" "role (?h' ! 2) = Assistant"
      "timestamp (?h' ! 2) = Some 3" "\<forall>j<4. j \<noteq> 2 \<longrightarrow> ?h' ! j = ?h ! j"
    by (simp_all add: len nth)
  from upd(4) have others: "?h' ! 0 = ?h ! 0" "?h' ! 1 = ?h ! 1" "?h' ! 3 = ?h ! 3"
    by simp_all
  have two: "?h' ! 2 = \<lparr>role = Assistant, content = ''Retrieval'', timestamp = Some 3\<rparr>"
    using upd(1-3) by (cases "?h' ! 2") simp
  have a: "?h' = [?h ! 0, ?h ! 1,
      \<lparr>role = Assistant, content = ''Retrieval'', timestamp = Some 3\<rparr>, ?h ! 3]"
  proof (rule nth_equalityI)
    show "length ?h' = length [?h ! 0, ?h ! 1,
      \<lparr>role = Assistant, content = ''Retrieval'', timestamp = Some 3\<rparr>, ?h ! 3]"
      by (simp add: len')
  next
    fix i assume "i < length ?h'"
    then have "i = 0 \<or> i = 1 \<or> i = 2 \<or> i = 3"
      unfolding len' by arith
    then show "?h' ! i = [?h ! 0, ?h ! 1,
      \<lparr>role = Assistant, content = ''Retrieval'', timestamp = Some 3\<rparr>, ?h ! 3] ! i"
      using others two by (auto simp: numeral_3_eq_3 numeral_2_eq_2)
  qed
  have b: "flashcards (updateLastAssistantMessage ''Retrieval'' sample_store) = flashcards sample_store"
    using frame by simp
  have "\<forall>j<length (drop 3 sample_history). role (drop 3 sample_history ! j) \<noteq> Assistant"
    by (simp add: sample_history_def)
  with updateLastAssistantMessage_frame
    [where s = "sample_store\<lparr>chatHistory := drop 3 sample_history\<rparr>" and c = "''x''"]
  have c: "chatHistory (updateLastAssistantMessage ''x'' (sample_store\<lparr>chatHistory := drop 3 sample_history\<rparr>))
       = drop 3 sample_history"
    by simp
  from a [unfolded nth] b c show ?thesis
    by simp
qed

section \<open>Properties of the streaming generator\<close>

lemma split_nl_not_Nil: "split_nl s \<noteq> []"
  by (induction s) (auto split: list.splits)

lemma split_nl_no_newline: "CHR 0x0A \<notin> set s \<Longrightarrow> split_nl s = [s]"
  by (induction s) auto

lemma split_nl_append:
  "split_nl (a @ b) =
     butlast (split_nl a) @ (last (split_nl a) @ hd (split_nl b)) # tl (split_nl b)"
proof (induction a)
  case Nil
  then show ?case using split_nl_not_Nil [of b] by (cases "split_nl b") auto
next
  case (Cons c a)
  obtain x xs where a: "split_nl a = x # xs"
    using split_nl_not_Nil [of a] by (cases "split_nl a") auto
  show ?case
  proof (cases "c = CHR 0x0A")
    case True
    then show ?thesis using Cons a by simp
  next
    case False
    then show ?thesis using Cons a by (cases "xs = []") auto
  qed
qed

lemma last_split_nl_no_newline: "CHR 0x0A \<notin> set (last (split_nl s))"
proof (induction s)
  case Nil
  then show ?case by simp
next
  case (Cons c s)
  obtain x xs where s: "split_nl s = x # xs"
    using split_nl_not_Nil [of s] by (cases "split_nl s") auto
  with Cons show ?case by (cases "xs = []") auto
qed

lemma split_nl_snoc_newline: "split_nl (s @ [CHR 0x0A]) = split_nl s @ [[]]"
  using split_nl_not_Nil [of s] by (simp add: split_nl_append)

lemma for_lines_append:
  "for_lines P (xs @ ys) =
     (let (a, r) = for_lines P xs
      in if r then (a, True) else (let (b, r') = for_lines P ys in (a @ b, r')))"
  by (induction xs) (auto simp: Let_def split: option.splits prod.splits)

lemma read_loop_lines:
  "CHR 0x0A \<notin> set buf \<Longrightarrow>
   read_loop P buf vs e =
     (let (ys, r) = for_lines P (butlast (split_nl (buf @ concat vs)))
      in (ys, if r then Returned else ending_of e))"
proof (induction vs arbitrary: buf)
  case Nil
  then show ?case by (simp add: split_nl_no_newline)
next
  case (Cons v vs)
  let ?lines = "split_nl (buf @ v)"
  let ?b = "last ?lines"
  have nb: "CHR 0x0A \<notin> set ?b"
    by (rule last_split_nl_no_newline)
  have "split_nl (?b @ concat vs) = (?b @ hd (split_nl (concat vs))) # tl (split_nl (concat vs))"
    using nb by (simp add: split_nl_append [of ?b] split_nl_no_newline)
  moreover have "split_nl (buf @ concat (v # vs)) =
      butlast ?lines @ (?b @ hd (split_nl (concat vs))) # tl (split_nl (concat vs))"
    using split_nl_append [of "buf @ v" "concat vs"] by simp
  ultimately have "butlast (split_nl (buf @ concat (v # vs))) =
      butlast ?lines @ butlast (split_nl (?b @ concat vs))"
    by (simp add: butlast_append)
  then show ?case
    using Cons.IH [OF nb]
    by (simp add: for_lines_append Let_def split: prod.splits)
qed

lemma for_lines_malformed:
  "startsWith ''data: '' l \<Longrightarrow> P (trim (drop 6 l)) = None \<Longrightarrow>
   for_lines P (l # ls) = for_lines P ls"
  by (simp add: Let_def)

lemma butlast_split_nl_line:
  assumes "pre = [] \<or> last pre = CHR 0x0A" and "CHR 0x0A \<notin> set l"
  shows "butlast (split_nl (pre @ l @ CHR 0x0A # post)) =
           butlast (split_nl pre) @ l # butlast (split_nl post)"
    and "butlast (split_nl (pre @ post)) = butlast (split_nl pre) @ butlast (split_nl post)"
proof -
  have lp: "last (split_nl pre) = []"
  proof (cases "pre = []")
    case True
    then show ?thesis by simp
  next
    case False
    with assms(1) have "pre = butlast pre @ [CHR 0x0A]"
      by (metis append_butlast_last_id)
    then have "split_nl pre = split_nl (butlast pre) @ [[]]"
      by (metis split_nl_snoc_newline)
    then show ?thesis by simp
  qed
  obtain x xs where post: "split_nl post = x # xs"
    using split_nl_not_Nil [of post] by (cases "split_nl post") auto
  have "split_nl (l @ CHR 0x0A # post) = l # split_nl post"
    using assms(2) split_nl_append [of l "CHR 0x0A # post"]
    by (simp add: split_nl_no_newline)
  then show "butlast (split_nl (pre @ l @ CHR 0x0A # post)) =
           butlast (split_nl pre) @ l # butlast (split_nl post)"
    using split_nl_append [of pre "l @ CHR 0x0A # post"] lp post
    by (simp add: butlast_append)
  show "butlast (split_nl (pre @ post)) = butlast (split_nl pre) @ butlast (split_nl post)"
    using split_nl_append [of pre post] lp post
    by (simp add: butlast_append)
qed

text \<open>
  C10. Take a response body whose text holds a complete line \<open>l\<close> that starts with
  \<open>data: \<close> and whose payload \<^verbatim>\<open>JSON.parse\<close> rejects. However the reads cut the
  text, \<open>chatStream\<close> yields the same chunks and ends the same way as on the body
  without that line: the line yields nothing, raises nothing and does not end the
  sequence, and the chunks of the lines after it are still yielded.
\<close>

theorem chatStream_skips_malformed_line:
  assumes line: "startsWith ''data: '' l" "CHR 0x0A \<notin> set l"
    and malformed: "JSON_parse (trim (drop 6 l)) = None"
    and pre: "pre = [] \<or> last pre = CHR 0x0A"
    and res: "fetch (chat_request_of d m h) = Inr res" "res_ok res"
      "res_body res = Some (pieces, e)"
    and whole: "concat pieces = pre @ l @ CHR 0x0A # post"
    and res': "fetch' (chat_request_of d m h) = Inr (res\<lparr>res_body := Some (pieces', e)\<rparr>)"
    and whole': "concat pieces' = pre @ post"
  shows "chatStream JSON_parse fetch d m h = chatStream JSON_parse fetch' d m h"
proof -
  have "butlast (split_nl (concat pieces)) =
      butlast (split_nl pre) @ l # butlast (split_nl post)"
    unfolding whole by (rule butlast_split_nl_line(1) [OF pre line(2)])
  moreover have "butlast (split_nl (concat pieces')) =
      butlast (split_nl pre) @ butlast (split_nl post)"
    unfolding whole' by (rule butlast_split_nl_line(2) [OF pre line(2)])
  ultimately have "for_lines JSON_parse (butlast (split_nl (concat pieces))) =
      for_lines JSON_parse (butlast (split_nl (concat pieces')))"
    by (simp only: for_lines_append
        for_lines_malformed [where P = JSON_parse, OF line(1) malformed])
  then have "read_loop JSON_parse [] pieces e = read_loop JSON_parse [] pieces' e"
    by (simp add: read_loop_lines)
  with res res' show ?thesis
    by (simp add: chatStream_def)
qed

lemma for_lines_done:
  "for_lines P ls = (ys, r) \<Longrightarrow>
   (\<forall>c\<in>set (butlast ys). \<not> chunk_done c) \<and> (r \<longleftrightarrow> ys \<noteq> [] \<and> chunk_done (last ys))"
proof (induction ls arbitrary: ys r)
  case Nil
  then show ?case by auto
next
  case (Cons l ls)
  then show ?case
    by (auto simp: Let_def split: if_splits option.splits prod.splits)
qed

lemma read_loop_done:
  "read_loop P buf vs e = (ys, r) \<Longrightarrow>
   (\<forall>c\<in>set (butlast ys). \<not> chunk_done c) \<and> (ys \<noteq> [] \<and> chunk_done (last ys) \<longrightarrow> r = Returned)"
proof (induction vs arbitrary: buf ys r)
  case Nil
  then show ?case by auto
next
  case (Cons v vs)
  obtain as ra where a: "for_lines P (butlast (split_nl (buf @ v))) = (as, ra)"
    by (cases "for_lines P (butlast (split_nl (buf @ v)))") auto
  note A = for_lines_done [OF a]
  show ?case
  proof (cases ra)
    case True
    with Cons.prems a A show ?thesis by (auto simp: Let_def)
  next
    case False
    obtain zs rz where z: "read_loop P (last (split_nl (buf @ v))) vs e = (zs, rz)"
      by (cases "read_loop P (last (split_nl (buf @ v))) vs e") auto
    note Z = Cons.IH [OF z]
    from Cons.prems a z False have ys: "ys = as @ zs" and r: "r = rz"
      by (auto simp: Let_def)
    from A False have as: "\<forall>c\<in>set as. \<not> chunk_done c"
      by (cases as rule: rev_cases) (auto simp: butlast_append)
    show ?thesis
    proof (cases "zs = []")
      case True
      with ys as A False r Z show ?thesis by auto
    next
      case False
      with ys as Z r show ?thesis by (auto simp: butlast_append)
    qed
  qed
qed

lemma for_await_stops_at_error:
  "truthy (chunk_error c) \<Longrightarrow>
   for_await (xs @ c # ys) full s ts = for_await (xs @ [c]) full s ts"
  by (induction xs arbitrary: full s ts) auto

lemma chatStream_cases:
  assumes "chatStream JSON_parse fetch d m h = (es, ending)"
  shows "es = [] \<or> (\<exists>pieces e. read_loop JSON_parse [] pieces e = (es, ending))"
proof (cases "fetch (chat_request_of d m h)")
  case (Inl err)
  with assms show ?thesis by (simp add: chatStream_def)
next
  case (Inr res)
  show ?thesis
  proof (cases "res_ok res")
    case False
    with assms Inr show ?thesis by (simp add: chatStream_def)
  next
    case True
    show ?thesis
    proof (cases "res_body res")
      case None
      with assms Inr True show ?thesis by (simp add: chatStream_def)
    next
      case (Some b)
      obtain pieces e where "b = (pieces, e)" by (cases b) auto
      with assms Inr True Some have "read_loop JSON_parse [] pieces e = (es, ending)"
        by (simp add: chatStream_def)
      then show ?thesis by blast
    qed
  qed
qed

lemma done_only_last:
  assumes "\<forall>c\<in>set (butlast es). \<not> chunk_done c" and "i < length es" and "chunk_done (es ! i)"
  shows "Suc i = length es"
proof (rule ccontr)
  assume "Suc i \<noteq> length es"
  with assms(2) have "i < length (butlast es)" by simp
  then have "butlast es ! i \<in> set (butlast es)" and "butlast es ! i = es ! i"
    by (rule nth_mem, rule nth_butlast)
  with assms(1,3) show False by auto
qed

lemma for_lines_data_chunks:
  "for_lines P ls =
     (takeWhile (\<lambda>c. \<not> chunk_done c) (List.map_filter (line_chunk P) ls)
        @ take 1 (dropWhile (\<lambda>c. \<not> chunk_done c) (List.map_filter (line_chunk P) ls)),
      \<exists>c\<in>set (List.map_filter (line_chunk P) ls). chunk_done c)"
proof (induction ls)
  case Nil
  then show ?case by (simp add: map_filter_simps)
next
  case (Cons l ls)
  show ?case
  proof (cases "line_chunk P l")
    case None
    then have "for_lines P (l # ls) = for_lines P ls"
      by (auto simp: line_chunk_def Let_def split: if_splits)
    with None Cons show ?thesis
      by (simp add: map_filter_simps)
  next
    case (Some c)
    then have l: "startsWith ''data: '' l" "trim (drop 6 l) \<noteq> []" "P (trim (drop 6 l)) = Some c"
      by (auto simp: line_chunk_def split: if_splits)
    show ?thesis
    proof (cases "chunk_done c")
      case True
      with l Some show ?thesis
        by (simp add: map_filter_simps Let_def)
    next
      case False
      with l Some Cons show ?thesis
        by (simp add: map_filter_simps Let_def)
    qed
  qed
qed

lemma chatStream_body:
  assumes "fetch (chat_request_of d m h) = Inr res" "res_ok res" "res_body res = Some (pieces, e)"
  shows "chatStream P fetch d m h =
     (takeWhile (\<lambda>c. \<not> chunk_done c) (data_chunks P pieces)
        @ take 1 (dropWhile (\<lambda>c. \<not> chunk_done c) (data_chunks P pieces)),
      if \<exists>c\<in>set (data_chunks P pieces). chunk_done c then Returned else ending_of e)"
  using assms
  by (simp add: chatStream_def read_loop_lines for_lines_data_chunks data_chunks_def)

lemma chatStream_no_body:
  assumes "\<forall>res pieces e. \<not> (fetch (chat_request_of d m h) = Inr res \<and> res_ok res
      \<and> res_body res = Some (pieces, e))"
  shows "\<exists>msg. chatStream P fetch d m h = ([], Threw msg)"
proof (cases "fetch (chat_request_of d m h)")
  case (Inl err)
  then show ?thesis by (simp add: chatStream_def)
next
  case (Inr res)
  show ?thesis
  proof (cases "res_ok res")
    case False
    with Inr show ?thesis by (simp add: chatStream_def)
  next
    case True
    with assms Inr have "res_body res = None"
      by (cases "res_body res") auto
    with Inr True show ?thesis by (simp add: chatStream_def)
  qed
qed

lemma first_done_prefix:
  fixes cs :: "ChatStreamChunk list"
  defines "es \<equiv> takeWhile (\<lambda>c. \<not> chunk_done c) cs @ take 1 (dropWhile (\<lambda>c. \<not> chunk_done c) cs)"
  shows "(\<exists>c\<in>set cs. chunk_done c) \<Longrightarrow> es \<noteq> [] \<and> chunk_done (last es)"
    and "\<forall>c\<in>set cs. \<not> chunk_done c \<Longrightarrow> es = cs"
proof -
  show "es \<noteq> [] \<and> chunk_done (last es)" if "\<exists>c\<in>set cs. chunk_done c"
  proof -
    from that have "dropWhile (\<lambda>c. \<not> chunk_done c) cs \<noteq> []"
      by (simp add: dropWhile_eq_Nil_conv)
    then obtain x xs where x: "dropWhile (\<lambda>c. \<not> chunk_done c) cs = x # xs"
      by (cases "dropWhile (\<lambda>c. \<not> chunk_done c) cs") auto
    then have "chunk_done x"
      using hd_dropWhile [of "\<lambda>c. \<not> chunk_done c" cs] by auto
    with x show ?thesis by (simp add: es_def)
  qed
  show "es = cs" if "\<forall>c\<in>set cs. \<not> chunk_done c"
    using that by (simp add: es_def takeWhile_eq_all_conv [THEN iffD2] dropWhile_eq_Nil_conv [THEN iffD2])
qed

text \<open>
  C2, as amended. The chunks \<open>chatStream\<close> yields form a finite list. On a
  response with a body they are the chunks of the body's complete data lines up
  to and including the first one with \<open>done = true\<close>, and no others. So when the
  body holds a \<open>done\<close> chunk, the sequence is not empty, its last element is that
  chunk and the generator has returned; when it holds none, every chunk of the
  body is yielded, none of them is \<open>done\<close>, and the sequence ends as the stream
  ends. Without such a response nothing is yielded and the generator throws. In
  every case a chunk with \<open>done = true\<close> can only be the last one, so there is at
  most one. A chunk that carries an error does not by itself end the generator's
  sequence; it is the consumer, the loop of \<open>handleSend\<close>, that stops at the first
  chunk with a non-empty error: the chunks after it change nothing.
\<close>

theorem chatStream_done_is_last:
  assumes "chatStream JSON_parse fetch d m h = (es, ending)"
  shows "(\<forall>i<length es. chunk_done (es ! i) \<longrightarrow> Suc i = length es)
    \<and> (es \<noteq> [] \<and> chunk_done (last es) \<longrightarrow> ending = Returned)
    \<and> (\<forall>xs c ys full s ts. es = xs @ c # ys \<and> truthy (chunk_error c) \<longrightarrow>
          for_await es full s ts = for_await (xs @ [c]) full s ts)
    \<and> (\<forall>res pieces e. fetch (chat_request_of d m h) = Inr res \<and> res_ok res
            \<and> res_body res = Some (pieces, e) \<longrightarrow>
          es = takeWhile (\<lambda>c. \<not> chunk_done c) (data_chunks JSON_parse pieces)
                 @ take 1 (dropWhile (\<lambda>c. \<not> chunk_done c) (data_chunks JSON_parse pieces))
          \<and> ((\<exists>c\<in>set (data_chunks JSON_parse pieces). chunk_done c) \<longrightarrow>
                es \<noteq> [] \<and> chunk_done (last es) \<and> ending = Returned)
          \<and> ((\<forall>c\<in>set (data_chunks JSON_parse pieces). \<not> chunk_done c) \<longrightarrow>
                es = data_chunks JSON_parse pieces \<and> (\<forall>c\<in>set es. \<not> chunk_done c)
                \<and> ending = ending_of e))
    \<and> ((\<forall>res pieces e. \<not> (fetch (chat_request_of d m h) = Inr res \<and> res_ok res
            \<and> res_body res = Some (pieces, e))) \<longrightarrow>
          es = [] \<and> (\<exists>msg. ending = Threw msg))"
proof -
  have body: "(\<forall>c\<in>set (butlast es). \<not> chunk_done c)
      \<and> (es \<noteq> [] \<and> chunk_done (last es) \<longrightarrow> ending = Returned)"
  proof (cases "es = []")
    case True
    then show ?thesis by simp
  next
    case False
    with chatStream_cases [OF assms] obtain pieces e
      where "read_loop JSON_parse [] pieces e = (es, ending)"
      by blast
    then show ?thesis by (rule read_loop_done)
  qed
  from body have a: "\<forall>i<length es. chunk_done (es ! i) \<longrightarrow> Suc i = length es"
    using done_only_last [of es] by blast
  have b: "\<forall>xs c ys full s ts. es = xs @ c # ys \<and> truthy (chunk_error c) \<longrightarrow>
          for_await es full s ts = for_await (xs @ [c]) full s ts"
  proof (intro allI impI, elim conjE)
    fix xs c ys full s ts
    assume "es = xs @ c # ys" and "truthy (chunk_error c)"
    then show "for_await es full s ts = for_await (xs @ [c]) full s ts"
      using for_await_stops_at_error [of c xs ys full s ts] by (simp only:)
  qed
  have c: "es = takeWhile (\<lambda>c. \<not> chunk_done c) (data_chunks JSON_parse pieces)
                 @ take 1 (dropWhile (\<lambda>c. \<not> chunk_done c) (data_chunks JSON_parse pieces))
          \<and> ((\<exists>c\<in>set (data_chunks JSON_parse pieces). chunk_done c) \<longrightarrow>
                es \<noteq> [] \<and> chunk_done (last es) \<and> ending = Returned)
          \<and> ((\<forall>c\<in>set (data_chunks JSON_parse pieces). \<not> chunk_done c) \<longrightarrow>
                es = data_chunks JSON_parse pieces \<and> (\<forall>c\<in>set es. \<not> chunk_done c)
                \<and> ending = ending_of e)"
    if r: "fetch (chat_request_of d m h) = Inr res \<and> res_ok res
            \<and> res_body res = Some (pieces, e)" for res pieces e
  proof -
    let ?cs = "data_chunks JSON_parse pieces"
    from r have r1: "fetch (chat_request_of d m h) = Inr res" and r2: "res_ok res"
      and r3: "res_body res = Some (pieces, e)"
      by simp_all
    from chatStream_body [where fetch = fetch and P = JSON_parse, OF r1 r2 r3] assms have es: "es = takeWhile (\<lambda>c. \<not> chunk_done c) ?cs
          @ take 1 (dropWhile (\<lambda>c. \<not> chunk_done c) ?cs)"
      and en: "ending = (if \<exists>c\<in>set ?cs. chunk_done c then Returned else ending_of e)"
      by simp_all
    have yes: "es \<noteq> [] \<and> chunk_done (last es) \<and> ending = Returned"
      if "\<exists>c\<in>set ?cs. chunk_done c"
      using first_done_prefix(1) [OF that] that es en by simp
    have no: "es = ?cs \<and> (\<forall>c\<in>set es. \<not> chunk_done c) \<and> ending = ending_of e"
      if "\<forall>c\<in>set ?cs. \<not> chunk_done c"
      using first_done_prefix(2) [OF that] that es en by simp
    from es yes no show ?thesis by blast
  qed
  have d: "es = [] \<and> (\<exists>msg. ending = Threw msg)"
    if "\<forall>res pieces e. \<not> (fetch (chat_request_of d m h) = Inr res \<and> res_ok res
            \<and> res_body res = Some (pieces, e))"
    using chatStream_no_body [where fetch = fetch and P = JSON_parse, OF that] assms by auto
  from a b body c d show ?thesis by blast
qed

section \<open>Properties of the chat page\<close>

lemma updateLast_snoc:
  assumes "chatHistory s = h @ [\<lparr>role = Assistant, content = c0, timestamp = t\<rparr>]"
  shows "chatHistory (updateLastAssistantMessage c s) =
           h @ [\<lparr>role = Assistant, content = c, timestamp = t\<rparr>]"
  using assms by (simp add: updateLastAssistantMessage_def nth_append)

lemma for_await_keeps_prefix:
  assumes "\<exists>c. chatHistory s = h @ [\<lparr>role = Assistant, content = c, timestamp = t\<rparr>]"
    and "for_await cs full s ts = (full', s', ts', b)"
  shows "\<exists>c. chatHistory s' = h @ [\<lparr>role = Assistant, content = c, timestamp = t\<rparr>]"
  using assms
proof (induction cs arbitrary: full s ts)
  case Nil
  then show ?case by simp
next
  case (Cons x cs)
  from Cons.prems(1) obtain c0 where
    s: "chatHistory s = h @ [\<lparr>role = Assistant, content = c0, timestamp = t\<rparr>]"
    by blast
  show ?case
  proof (cases "truthy (chunk_error x)")
    case True
    with Cons.prems(2) have "s' = updateLastAssistantMessage sorry_message s" by simp
    with updateLast_snoc [OF s] show ?thesis by blast
  next
    case False
    with Cons.prems(2) have "for_await cs (full @ chunk_content x)
        (updateLastAssistantMessage (full @ chunk_content x) s) ts = (full', s', ts', b)"
      by simp
    moreover have "\<exists>c. chatHistory (updateLastAssistantMessage (full @ chunk_content x) s) =
        h @ [\<lparr>role = Assistant, content = c, timestamp = t\<rparr>]"
      using updateLast_snoc [OF s] by blast
    ultimately show ?thesis by (rule Cons.IH [rotated])
  qed
qed

lemma chatStream_same_answer:
  "fetch' (chat_request_of d m h) = fetch (chat_request_of d m h) \<Longrightarrow>
   chatStream P fetch' d m h = chatStream P fetch d m h"
  by (simp add: chatStream_def)

lemma handleSend_same_answer:
  assumes "fetch' (chat_request_of (doc_id (the (currentDocument store))) (trim (input page))
        (chatHistory store)) =
      fetch (chat_request_of (doc_id (the (currentDocument store))) (trim (input page))
        (chatHistory store))"
  shows "handleSend P fetch' now1 now2 page store = handleSend P fetch now1 now2 page store"
proof -
  have "chatStream P fetch' (doc_id (the (currentDocument store))) (trim (input page))
      (chatHistory store) =
    chatStream P fetch (doc_id (the (currentDocument store))) (trim (input page))
      (chatHistory store)"
    using assms by (rule chatStream_same_answer)
  then show ?thesis
    by (simp add: handleSend_def Let_def)
qed

lemma handleSend_failed_request:
  assumes "handleSend P fetch now1 now2 page store = Some out"
    and "fetch (chat_request_of (doc_id (the (currentDocument store))) (trim (input page))
        (chatHistory store)) = Inl err"
  shows "toasts_shown out = [err]"
proof -
  from assms(2) have "chatStream P fetch (doc_id (the (currentDocument store)))
      (trim (input page)) (chatHistory store) = ([], Threw err)"
    by (simp add: chatStream_def)
  with assms(1) show ?thesis
    by (auto simp: handleSend_def Let_def split: if_splits)
qed

text \<open>
  C3. When \<open>handleSend\<close> sends a turn, the one request it makes carries the
  store's history from before the turn, message by message in the same order
  (the store appends, so the oldest comes first), reduced to role and content,
  and the trimmed input as the message. That this is the request \<open>fetch\<close>
  receives is stated through \<open>fetch\<close>: a network that answers this request in
  the same way leads to the same outcome whatever it answers to any other
  request, and a failure of this request is the error shown. The user message
  just typed and the assistant placeholder are appended to the store after the
  snapshot, so the store at the time of the request holds two messages more
  than the request; when the turn is over the store holds the earlier messages
  unchanged, followed by those two.
\<close>

theorem handleSend_history_excludes_current_turn:
  fixes store :: LearningStore and page :: page_state
  defines "request \<equiv> chat_request_of (doc_id (the (currentDocument store)))
      (trim (input page)) (chatHistory store)"
  assumes "handleSend JSON_parse fetch now1 now2 page store = Some out"
  shows "(\<forall>fetch'. fetch' request = fetch request \<longrightarrow>
            handleSend JSON_parse fetch' now1 now2 page store = Some out)
    \<and> (\<forall>err. fetch request = Inl err \<longrightarrow> toasts_shown out = [err])
    \<and> req_history request =
         map (\<lambda>m. \<lparr>wire_role = role m, wire_content = content m\<rparr>) (chatHistory store)
    \<and> req_message request = trim (input page)
    \<and> chatHistory (store_at_request out) =
         chatHistory store @
           [\<lparr>role = User, content = trim (input page), timestamp = Some now1\<rparr>,
            \<lparr>role = Assistant, content = [], timestamp = Some now2\<rparr>]
    \<and> length (chatHistory (store_at_request out)) = length (req_history request) + 2
    \<and> (\<exists>c. chatHistory (store_after out) =
         chatHistory store @
           [\<lparr>role = User, content = trim (input page), timestamp = Some now1\<rparr>,
            \<lparr>role = Assistant, content = c, timestamp = Some now2\<rparr>])"
proof -
  let ?u = "\<lparr>role = User, content = trim (input page), timestamp = Some now1\<rparr>"
  let ?s2 = "addChatMessage \<lparr>role = Assistant, content = [], timestamp = Some now2\<rparr>
      (addChatMessage ?u store)"
  let ?d = "doc_id (the (currentDocument store))"
  obtain chunks ending where cs:
    "chatStream JSON_parse fetch ?d (trim (input page)) (chatHistory store) = (chunks, ending)"
    by (cases "chatStream JSON_parse fetch ?d (trim (input page)) (chatHistory store)") auto
  obtain full s3 toasts broke where fa: "for_await chunks [] ?s2 [] = (full, s3, toasts, broke)"
    by (cases "for_await chunks [] ?s2 []") auto
  have s2: "chatHistory ?s2 = (chatHistory store @ [?u]) @
      [\<lparr>role = Assistant, content = [], timestamp = Some now2\<rparr>]"
    by (simp add: addChatMessage_def)
  then have "\<exists>c. chatHistory ?s2 = (chatHistory store @ [?u]) @
      [\<lparr>role = Assistant, content = c, timestamp = Some now2\<rparr>]"
    by blast
  from for_await_keeps_prefix [OF this fa] obtain c3 where s3: "chatHistory s3 =
      (chatHistory store @ [?u]) @ [\<lparr>role = Assistant, content = c3, timestamp = Some now2\<rparr>]"
    by blast
  from assms(2) have guard: "\<not> (trim (input page) = [] \<or> isStreaming page
      \<or> currentDocument store = None)"
    by (auto simp: handleSend_def split: if_splits)
  obtain s4 t4 where fin: "(case (if broke then Returned else ending) of
       Returned \<Rightarrow> (if full = [] then updateLastAssistantMessage empty_message s3 else s3, toasts)
     | Threw e \<Rightarrow> (updateLastAssistantMessage sorry_message s3, toasts @ [e])) = (s4, t4)"
    by (meson surj_pair)
  from assms(2) guard cs fa fin have out:
    "store_at_request out = ?s2"
    "store_after out = s4"
    by (auto simp: handleSend_def Let_def)
  have "s4 = s3 \<or> s4 = updateLastAssistantMessage empty_message s3
      \<or> s4 = updateLastAssistantMessage sorry_message s3"
    using fin by (cases "if broke then Returned else ending") (auto split: if_splits)
  then have "\<exists>c. chatHistory s4 =
      (chatHistory store @ [?u]) @ [\<lparr>role = Assistant, content = c, timestamp = Some now2\<rparr>]"
    using s3 updateLast_snoc [OF s3] by (elim disjE) (simp only:, blast)+
  with out(2) have after: "\<exists>c. chatHistory (store_after out) =
      chatHistory store @ [?u, \<lparr>role = Assistant, content = c, timestamp = Some now2\<rparr>]"
    by simp
  have same: "handleSend JSON_parse fetch' now1 now2 page store = Some out"
    if "fetch' request = fetch request" for fetch'
    using handleSend_same_answer [where fetch = fetch and fetch' = fetch'] that assms(2)
    unfolding request_def by simp
  have failed: "toasts_shown out = [err]" if "fetch request = Inl err" for err
    using handleSend_failed_request [OF assms(2)] that unfolding request_def by simp
  have hist: "req_history request =
      map (\<lambda>m. \<lparr>wire_role = role m, wire_content = content m\<rparr>) (chatHistory store)"
    and msg: "req_message request = trim (input page)"
    by (simp_all add: request_def chat_request_of_def)
  from out(1) s2 have at: "chatHistory (store_at_request out) =
      chatHistory store @ [?u, \<lparr>role = Assistant, content = [], timestamp = Some now2\<rparr>]"
    by simp
  from at hist have len: "length (chatHistory (store_at_request out)) =
      length (req_history request) + 2"
    by simp
  from same failed hist msg at len after show ?thesis by blast
qed

section \<open>The chat client at the sample inputs\<close>

lemma chatStream_wellformed:
  "chatStream JSON_parse_table (sample_fetch pieces_wellformed EndOfStream) ''d1'' ''hi'' [] =
     ([hel_chunk, lo_chunk, done_chunk], Returned)"
  by code_simp

lemma chatStream_error:
  "chatStream JSON_parse_table (sample_fetch pieces_error EndOfStream) ''d1'' ''hi'' [] =
     ([error_chunk, lo_chunk], Returned)"
  by code_simp

text \<open>
  C2 as stated fails: a body whose first chunk carries an error with
  \<open>done = false\<close> yields a further chunk after it and ends, at the end of the
  stream, with a last element that is not \<open>done\<close>; an empty body yields no element
  at all.
\<close>

theorem chatStream_terminal_done_counterexample:
  "chatStream JSON_parse_table (sample_fetch pieces_error EndOfStream) ''d1'' ''hi'' [] =
     ([error_chunk, lo_chunk], Returned)
   \<and> truthy (chunk_error error_chunk) \<and> \<not> chunk_done lo_chunk
   \<and> chatStream JSON_parse_table (sample_fetch [] EndOfStream) ''d1'' ''hi'' [] = ([], Returned)"
proof -
  have "chatStream JSON_parse_table (sample_fetch [] EndOfStream) ''d1'' ''hi'' [] = ([], Returned)"
    by (simp add: chatStream_def sample_fetch_def)
  moreover have "truthy (chunk_error error_chunk)" "\<not> chunk_done lo_chunk"
    by (simp_all add: error_chunk_def lo_chunk_def)
  ultimately show ?thesis
    using chatStream_error by simp
qed

lemma data_chunks_samples:
  "data_chunks JSON_parse_table pieces_wellformed = [hel_chunk, lo_chunk, done_chunk]"
  "data_chunks JSON_parse_table pieces_error = [error_chunk, lo_chunk]"
  by code_simp+

theorem chatStream_done_is_last_witness:
  "\<not> chunk_done (fst (chatStream JSON_parse_table
        (sample_fetch pieces_wellformed EndOfStream) ''d1'' ''hi'' []) ! 0)
   \<and> \<not> chunk_done (fst (chatStream JSON_parse_table
        (sample_fetch pieces_wellformed EndOfStream) ''d1'' ''hi'' []) ! 1)
   \<and> chunk_done (last (fst (chatStream JSON_parse_table
        (sample_fetch pieces_wellformed EndOfStream) ''d1'' ''hi'' [])))
   \<and> snd (chatStream JSON_parse_table
        (sample_fetch pieces_wellformed EndOfStream) ''d1'' ''hi'' []) = Returned
   \<and> fst (chatStream JSON_parse_table
        (sample_fetch pieces_error EndOfStream) ''d1'' ''hi'' []) = [error_chunk, lo_chunk]
   \<and> snd (chatStream JSON_parse_table
        (sample_fetch pieces_error (ReadFailed ''reset'')) ''d1'' ''hi'' []) = Threw ''reset''
   \<and> for_await (fst (chatStream JSON_parse_table
        (sample_fetch pieces_error EndOfStream) ''d1'' ''hi'' [])) [] sample_store [] =
       for_await [error_chunk] [] sample_store []"
proof -
  let ?ok = "chatStream JSON_parse_table (sample_fetch pieces_wellformed EndOfStream) ''d1'' ''hi'' []"
  let ?err = "chatStream JSON_parse_table (sample_fetch pieces_error EndOfStream) ''d1'' ''hi'' []"
  let ?cut = "chatStream JSON_parse_table (sample_fetch pieces_error (ReadFailed ''reset''))
      ''d1'' ''hi'' []"
  have flags: "chunk_done done_chunk" "\<not> chunk_done error_chunk" "\<not> chunk_done lo_chunk"
    "\<not> chunk_done hel_chunk" "truthy (chunk_error error_chunk)"
    by (simp_all add: done_chunk_def error_chunk_def lo_chunk_def hel_chunk_def)
  have res: "sample_fetch ps e (chat_request_of ''d1'' ''hi'' []) =
        Inr \<lparr>res_ok = True, res_json_detail = None, res_body = Some (ps, e)\<rparr>
      \<and> res_ok \<lparr>res_ok = True, res_json_detail = None, res_body = Some (ps, e)\<rparr>
      \<and> res_body \<lparr>res_ok = True, res_json_detail = None, res_body = Some (ps, e)\<rparr> = Some (ps, e)"
    for ps e
    by (simp add: sample_fetch_def)
  note ok = chatStream_done_is_last [OF surjective_pairing [of ?ok]]
  note err = chatStream_done_is_last [OF surjective_pairing [of ?err]]
  note cut = chatStream_done_is_last [OF surjective_pairing [of ?cut]]
  from ok res [of pieces_wellformed EndOfStream]
  have ok_es: "fst ?ok = takeWhile (\<lambda>c. \<not> chunk_done c) (data_chunks JSON_parse_table pieces_wellformed)
        @ take 1 (dropWhile (\<lambda>c. \<not> chunk_done c) (data_chunks JSON_parse_table pieces_wellformed))"
    and ok_done: "(\<exists>c\<in>set (data_chunks JSON_parse_table pieces_wellformed). chunk_done c) \<longrightarrow>
        fst ?ok \<noteq> [] \<and> chunk_done (last (fst ?ok)) \<and> snd ?ok = Returned"
    by blast+
  from ok_es have es: "fst ?ok = [hel_chunk, lo_chunk, done_chunk]"
    by (simp add: data_chunks_samples flags)
  from ok_done have a: "chunk_done (last (fst ?ok))" "snd ?ok = Returned"
    by (simp_all add: data_chunks_samples flags)
  from ok have "\<forall>i<length (fst ?ok). chunk_done (fst ?ok ! i) \<longrightarrow> Suc i = length (fst ?ok)"
    by (rule conjunct1)
  from this [rule_format, of 0] this [rule_format, of 1]
  have b: "\<not> chunk_done (fst ?ok ! 0)" "\<not> chunk_done (fst ?ok ! 1)"
    by (auto simp: es)
  from err res [of pieces_error EndOfStream]
  have "(\<forall>c\<in>set (data_chunks JSON_parse_table pieces_error). \<not> chunk_done c) \<longrightarrow>
      fst ?err = data_chunks JSON_parse_table pieces_error"
    by blast
  then have c: "fst ?err = [error_chunk, lo_chunk]"
    by (simp add: data_chunks_samples flags)
  from cut res [of pieces_error "ReadFailed ''reset''"]
  have "(\<forall>c\<in>set (data_chunks JSON_parse_table pieces_error). \<not> chunk_done c) \<longrightarrow>
      snd ?cut = ending_of (ReadFailed ''reset'')"
    by blast
  then have d: "snd ?cut = Threw ''reset''"
    by (simp add: data_chunks_samples flags)
  from err have "\<forall>xs c ys full s ts. fst ?err = xs @ c # ys \<and> truthy (chunk_error c) \<longrightarrow>
      for_await (fst ?err) full s ts = for_await (xs @ [c]) full s ts"
    by (elim conjE)
  from this [rule_format, of "[]" error_chunk "[lo_chunk]" "[]" sample_store "[]"]
  have e: "for_await (fst ?err) [] sample_store [] = for_await [error_chunk] [] sample_store []"
    by (simp add: c flags)
  from a b c d e show ?thesis by simp
qed

theorem chatStream_skips_malformed_line_witness:
  "JSON_parse_table (trim (drop 6 ''data: {oops'')) = None
   \<and> chatStream JSON_parse_table (sample_fetch pieces_malformed EndOfStream) ''d1'' ''hi'' [] =
       ([hel_chunk, lo_chunk, done_chunk], Returned)"
proof -
  let ?l = "''data: {oops''"
  let ?pre = "''data: {\"content\":\"Hel\",\"done\":false}\<newline>''"
  let ?post = "''data: {\"content\":\"lo\",\"done\":false}\<newline>\<newline>data: {\"content\":\"\",\"done\":true}\<newline>\<newline>''"
  let ?res = "\<lparr>res_ok = True, res_json_detail = None,
      res_body = Some (pieces_malformed, EndOfStream)\<rparr>"
  have 1: "startsWith ''data: '' ?l" "CHR 0x0A \<notin> set ?l"
    by (simp_all add: startsWith_def)
  have 2: "JSON_parse_table (trim (drop 6 ?l)) = None"
    by (simp add: trim_def is_whitespace_def JSON_parse_table_def)
  have 3: "?pre = [] \<or> last ?pre = CHR 0x0A"
    by simp
  have 4: "sample_fetch pieces_malformed EndOfStream (chat_request_of ''d1'' ''hi'' []) = Inr ?res"
    "res_ok ?res" "res_body ?res = Some (pieces_malformed, EndOfStream)"
    by (simp_all add: sample_fetch_def)
  have 5: "concat pieces_malformed = ?pre @ ?l @ CHR 0x0A # ?post"
    by (simp add: pieces_malformed_def)
  have 6: "sample_fetch pieces_wellformed EndOfStream (chat_request_of ''d1'' ''hi'' []) =
      Inr (?res\<lparr>res_body := Some (pieces_wellformed, EndOfStream)\<rparr>)"
    by (simp add: sample_fetch_def)
  have 7: "concat pieces_wellformed = ?pre @ ?post"
    by (simp add: pieces_wellformed_def)
  from chatStream_skips_malformed_line
    [where JSON_parse = JSON_parse_table and l = ?l and pre = ?pre and post = ?post
      and fetch = "sample_fetch pieces_malformed EndOfStream"
      and fetch' = "sample_fetch pieces_wellformed EndOfStream"
      and d = "''d1''" and m = "''hi''" and h = "[]", OF 1 2 3 4 5 6 7] 2
  show ?thesis
    by (simp add: chatStream_wellformed)
qed

lemma handleSend_sample_sends:
  "handleSend JSON_parse_table (sample_fetch pieces_wellformed EndOfStream) 10 11
     sample_page sample_store \<noteq> None"
  by (simp add: handleSend_def Let_def sample_page_def sample_store_def trim_def
      is_whitespace_def split: prod.splits)

theorem handleSend_history_excludes_current_turn_witness:
  "handleSend JSON_parse_table
     (\<lambda>r. if r = chat_request_of ''d1'' ''And then?'' sample_history
          then sample_fetch pieces_wellformed EndOfStream r else Inl ''another request'')
     10 11 sample_page sample_store =
   handleSend JSON_parse_table (sample_fetch pieces_wellformed EndOfStream) 10 11
     sample_page sample_store
   \<and> req_history (chat_request_of ''d1'' ''And then?'' sample_history) =
     [\<lparr>wire_role = Assistant, wire_content = ''Hello''\<rparr>,
      \<lparr>wire_role = User, wire_content = ''What is RAG?''\<rparr>,
      \<lparr>wire_role = Assistant, wire_content = []\<rparr>,
      \<lparr>wire_role = User, wire_content = ''And then?''\<rparr>]
   \<and> chatHistory (store_at_request (the (handleSend JSON_parse_table
       (sample_fetch pieces_wellformed EndOfStream) 10 11 sample_page sample_store))) =
     sample_history @
       [\<lparr>role = User, content = ''And then?'', timestamp = Some 10\<rparr>,
        \<lparr>role = Assistant, content = [], timestamp = Some 11\<rparr>]"
proof -
  let ?fetch = "sample_fetch pieces_wellformed EndOfStream"
  let ?r = "chat_request_of ''d1'' ''And then?'' sample_history"
  let ?fetch' = "\<lambda>r. if r = ?r then ?fetch r else Inl ''another request''"
  obtain out where out:
    "handleSend JSON_parse_table ?fetch 10 11 sample_page sample_store = Some out"
    using handleSend_sample_sends by blast
  have t: "trim (input sample_page) = ''And then?''"
    by (simp add: sample_page_def trim_def is_whitespace_def)
  have h: "chatHistory sample_store = sample_history"
    by (simp add: sample_store_def)
  have d: "doc_id (the (currentDocument sample_store)) = ''d1''"
    by (simp add: sample_store_def sample_document_def)
  note T = handleSend_history_excludes_current_turn [OF out, unfolded t h d]
  from T have "\<forall>fetch'. fetch' ?r = ?fetch ?r \<longrightarrow>
      handleSend JSON_parse_table fetch' 10 11 sample_page sample_store = Some out"
    by (rule conjunct1)
  from this [rule_format, of ?fetch']
  have a: "handleSend JSON_parse_table ?fetch' 10 11 sample_page sample_store = Some out"
    by simp
  from T have b: "req_history ?r =
      map (\<lambda>m. \<lparr>wire_role = role m, wire_content = content m\<rparr>) sample_history"
    and c: "chatHistory (store_at_request out) = sample_history @
       [\<lparr>role = User, content = ''And then?'', timestamp = Some 10\<rparr>,
        \<lparr>role = Assistant, content = [], timestamp = Some 11\<rparr>]"
    by blast+
  from b have b': "req_history ?r =
     [\<lparr>wire_role = Assistant, wire_content = ''Hello''\<rparr>,
      \<lparr>wire_role = User, wire_content = ''What is RAG?''\<rparr>,
      \<lparr>wire_role = Assistant, wire_content = []\<rparr>,
      \<lparr>wire_role = User, wire_content = ''And then?''\<rparr>]"
    by (simp add: sample_history_def)
  from a b' c show ?thesis
    unfolding out option.sel by simp
qed

section \<open>Properties of the similarity search\<close>

lemma with_distances_Inr:
  "with_distances q cs = Inr ds \<Longrightarrow>
   map fst ds = cs \<and> (\<forall>x\<in>set ds. distance_op (embedding (fst x)) q = Inr (snd x))"
  by (induction cs arbitrary: ds) (auto split: sum.splits)

lemma float8_le_total: "float8_le a b \<or> float8_le b a"
  by (cases a; cases b) auto

lemma float8_le_trans: "float8_le a b \<Longrightarrow> float8_le b c \<Longrightarrow> float8_le a c"
  by (cases a; cases b; cases c) auto

lemma dist_le_total: "dist_le a b \<or> dist_le b a"
  by (cases a; cases b) (auto simp: float8_le_total)

lemma dist_le_trans: "dist_le a b \<Longrightarrow> dist_le b c \<Longrightarrow> dist_le a c"
  by (cases a; cases b; cases c) (auto intro: float8_le_trans)

lemma mset_insert_by: "mset (insert_by x xs) = add_mset x (mset xs)"
  by (induction xs) auto

lemma mset_order_by: "mset (order_by xs) = mset xs"
  by (induction xs) (auto simp: mset_insert_by)

lemma set_insert_by: "set (insert_by x xs) = insert x (set xs)"
  by (induction xs) auto

lemma set_order_by: "set (order_by xs) = set xs"
  by (induction xs) (auto simp: set_insert_by)

lemma sorted_insert_by:
  "sorted_wrt (\<lambda>x y. dist_le (snd x) (snd y)) xs \<Longrightarrow>
   sorted_wrt (\<lambda>x y. dist_le (snd x) (snd y)) (insert_by x xs)"
proof (induction xs)
  case Nil
  then show ?case by simp
next
  case (Cons y ys)
  show ?case
  proof (cases "dist_le (snd x) (snd y)")
    case True
    with Cons.prems show ?thesis
      by (auto intro: dist_le_trans)
  next
    case False
    then have "dist_le (snd y) (snd x)"
      using dist_le_total by blast
    with False Cons show ?thesis
      by (auto simp: set_insert_by)
  qed
qed

lemma sorted_order_by: "sorted_wrt (\<lambda>x y. dist_le (snd x) (snd y)) (order_by xs)"
  by (induction xs) (auto intro: sorted_insert_by)

lemma sorted_wrt_take_by: "sorted_wrt P xs \<Longrightarrow> sorted_wrt P (take n xs)"
  by (metis append_take_drop_id sorted_wrt_append)

lemma length_order_by: "length (order_by xs) = length xs"
  by (metis mset_order_by size_mset)

lemma length_with_distances: "with_distances q cs = Inr ds \<Longrightarrow> length ds = length cs"
  using with_distances_Inr [of q cs ds] by (metis length_map)

lemma with_distances_total:
  assumes "\<forall>c\<in>set cs. \<forall>e. embedding c = Some e \<longrightarrow> length e = length q"
  shows "\<exists>ds. with_distances q cs = Inr ds"
  using assms
proof (induction cs)
  case Nil
  then show ?case by simp
next
  case (Cons c cs)
  then obtain ds where "with_distances q cs = Inr ds" by auto
  moreover from Cons.prems have "\<exists>d. distance_op (embedding c) q = Inr d"
    by (cases "embedding c") (auto simp: distance_op_def)
  ultimately show ?case by auto
qed

lemma mset_take_subseteq: "mset (take n xs) \<subseteq># mset xs"
  by (metis append_take_drop_id mset_append mset_subset_eq_add_left)

text \<open>
  What the rows read in distance order, filtered and cut at the limit, are: a
  part of the scanned rows that pass the filter, still in distance order.
\<close>

lemma picked_rows:
  assumes "with_distances q cs = Inr ds"
    and "xs = take m (filter (\<lambda>x. P (fst x)) (order_by ds))"
  shows "mset (map fst xs) \<subseteq># mset (filter P cs)"
    and "sorted_wrt (\<lambda>x y. dist_le (snd x) (snd y)) xs"
    and "\<forall>x\<in>set xs. distance_op (embedding (fst x)) q = Inr (snd x)"
    and "length xs = min m (length (filter P cs))"
proof -
  let ?ys = "filter (\<lambda>x. P (fst x)) (order_by ds)"
  note D = with_distances_Inr [OF assms(1)]
  have "map fst ?ys = filter P (map fst (order_by ds))"
    by (simp add: filter_map comp_def)
  then have "mset (map fst ?ys) = filter_mset P (image_mset fst (mset (order_by ds)))"
    by simp
  also have "\<dots> = filter_mset P (mset (map fst ds))"
    by (simp add: mset_order_by)
  also have "\<dots> = mset (filter P cs)"
    using D by simp
  finally have all: "mset (map fst ?ys) = mset (filter P cs)" .
  have "mset (map fst xs) \<subseteq># mset (map fst ?ys)"
    unfolding assms(2) take_map [symmetric] by (rule mset_take_subseteq)
  with all show "mset (map fst xs) \<subseteq># mset (filter P cs)"
    by simp
  show "sorted_wrt (\<lambda>x y. dist_le (snd x) (snd y)) xs"
    unfolding assms(2)
    by (intro sorted_wrt_take_by sorted_wrt_filter sorted_order_by)
  have "set xs \<subseteq> set ds"
    unfolding assms(2) using set_take_subset [of m ?ys] by (auto simp: set_order_by)
  with D show "\<forall>x\<in>set xs. distance_op (embedding (fst x)) q = Inr (snd x)"
    by blast
  from all have "length ?ys = length (filter P cs)"
    by (metis length_map size_mset)
  then show "length xs = min m (length (filter P cs))"
    unfolding assms(2) by (simp add: min.commute)
qed

text \<open>The rows behind a result of \<open>match_chunks\<close>, under either plan.\<close>

lemma match_chunks_Inr:
  assumes "match_chunks plan db q doc k = Inr rows"
  obtains xs where
    "rows = map select_row xs"
    "mset (map fst xs) \<subseteq># mset (filter (\<lambda>c. document_id c = doc) (chunks db))"
    "sorted_wrt (\<lambda>x y. dist_le (snd x) (snd y)) xs"
    "\<forall>x\<in>set xs. distance_op (embedding (fst x)) q = Inr (snd x)"
    "0 \<le> (case k of None \<Rightarrow> 5 | Some n \<Rightarrow> n)"
    "length xs \<le> nat (case k of None \<Rightarrow> 5 | Some n \<Rightarrow> n)"
    "plan = Seq_scan \<Longrightarrow>
       length xs = min (nat (case k of None \<Rightarrow> 5 | Some n \<Rightarrow> n))
         (length (filter (\<lambda>c. document_id c = doc) (chunks db)))"
    "\<And>probed. plan = Index_scan probed \<Longrightarrow>
       mset (map fst xs) \<subseteq>#
         mset (filter (\<lambda>c. probed c \<and> indexed c) (filter (\<lambda>c. document_id c = doc) (chunks db)))"
proof -
  let ?n = "case k of None \<Rightarrow> 5 | Some n \<Rightarrow> n"
  let ?own = "filter (\<lambda>c. document_id c = doc) (chunks db)"
  from assms have n: "0 \<le> ?n"
    by (auto simp: match_chunks_def Let_def split: if_splits)
  show thesis
  proof (cases "?n = 0")
    case True
    with assms have "rows = map select_row []"
      by (auto simp: match_chunks_def Let_def)
    with True n show thesis
      by (intro that [of "[]"]) simp_all
  next
    case False
    show thesis
    proof (cases plan)
      case Seq_scan
      with assms False n obtain ds where ds: "with_distances q ?own = Inr ds"
        and rows: "rows = map select_row (take (nat ?n) (order_by ds))"
        by (auto simp: match_chunks_def Let_def split: if_splits sum.splits)
      let ?xs = "take (nat ?n) (order_by ds)"
      have "?xs = take (nat ?n) (filter (\<lambda>x. (\<lambda>c. True) (fst x)) (order_by ds))"
        by simp
      note P = picked_rows [OF ds this]
      from P(1) have sub: "mset (map fst ?xs) \<subseteq># mset ?own" by simp
      from P(4) have len: "length ?xs = min (nat ?n) (length ?own)" by simp
      from rows sub P(2) P(3) n len Seq_scan show thesis
        by (intro that [of ?xs]) simp_all
    next
      case (Index_scan probed)
      let ?scanned = "filter (\<lambda>c. probed c \<and> indexed c) (chunks db)"
      from assms False n Index_scan obtain ds where ds: "with_distances q ?scanned = Inr ds"
        and rows: "rows = map select_row
            (take (nat ?n) (filter (\<lambda>x. document_id (fst x) = doc) (order_by ds)))"
        by (auto simp: match_chunks_def Let_def split: if_splits sum.splits)
      let ?xs = "take (nat ?n) (filter (\<lambda>x. document_id (fst x) = doc) (order_by ds))"
      note P = picked_rows [OF ds refl [of ?xs]]
      have swap: "filter (\<lambda>c. document_id c = doc) ?scanned =
          filter (\<lambda>c. probed c \<and> indexed c) ?own"
        by (simp add: conj_commute)
      from P(1) have sub': "mset (map fst ?xs) \<subseteq>#
          mset (filter (\<lambda>c. probed c \<and> indexed c) ?own)"
        unfolding swap .
      also have "\<dots> \<subseteq># mset ?own"
        unfolding mset_filter by (rule multiset_filter_subset)
      finally have sub: "mset (map fst ?xs) \<subseteq># mset ?own" .
      have len: "length ?xs \<le> nat ?n" by simp
      from rows sub sub' P(2) P(3) n len Index_scan show thesis
        by (intro that [of ?xs]) simp_all
    qed
  qed
qed

text \<open>
  With the column and the query of the declared dimension and a positive count,
  the search gives no error, under either plan.
\<close>

lemma match_chunks_succeeds:
  assumes "column_types db" "length q = embedding_dim" "0 < k"
  shows "\<exists>rows. match_chunks plan db q doc (Some k) = Inr rows"
proof -
  have total: "\<exists>ds. with_distances q (filter P (chunks db)) = Inr ds" for P
    using assms(1,2) by (intro with_distances_total) (auto simp: column_types_def)
  from assms(3) have k0: "\<not> k < 0" "k \<noteq> 0" by simp_all
  show ?thesis
  proof (cases plan)
    case Seq_scan
    from total [of "\<lambda>c. document_id c = doc"] show ?thesis
      by (auto simp: match_chunks_def Seq_scan k0)
  next
    case (Index_scan probed)
    from total [of "\<lambda>c. probed c \<and> indexed c"] show ?thesis
      by (auto simp: match_chunks_def Index_scan k0 assms(2))
  qed
qed

text \<open>
  C1. In a table whose \<open>id\<close> column is a key, every row that
  \<open>match_chunks\<close> returns for document \<open>A\<close> is the \<open>id\<close> and \<open>content\<close> of a stored
  chunk whose \<open>document_id\<close> is \<open>A\<close>, and no chunk of any other document has that
  \<open>id\<close>: whatever the query embedding and the count, and whether the table or
  the index is read.
\<close>

theorem match_chunks_scoped_to_document:
  assumes "distinct (map c_id (chunks db))"
    and "match_chunks plan db q A k = Inr rows"
    and "r \<in> set rows"
  shows "(\<exists>c\<in>set (chunks db). c_id c = m_id r \<and> c_content c = m_content r \<and> document_id c = A)
    \<and> (\<forall>c\<in>set (chunks db). c_id c = m_id r \<longrightarrow> document_id c = A)"
proof -
  from assms(2) obtain xs where rows: "rows = map select_row xs"
    and sub: "mset (map fst xs) \<subseteq># mset (filter (\<lambda>c. document_id c = A) (chunks db))"
    by (rule match_chunks_Inr)
  from assms(3) rows obtain x where x: "x \<in> set xs" and r: "r = select_row x"
    by auto
  from x have "fst x \<in> set (map fst xs)" by simp
  with set_mset_mono [OF sub] have "fst x \<in> set (filter (\<lambda>c. document_id c = A) (chunks db))"
    by (metis set_mset_mset subsetD)
  then have sel: "fst x \<in> set (chunks db)" "document_id (fst x) = A"
    by simp_all
  have own: "c_id (fst x) = m_id r" "c_content (fst x) = m_content r"
    by (simp_all add: r select_row_def)
  have "document_id c = A" if "c \<in> set (chunks db)" "c_id c = m_id r" for c
  proof -
    from assms(1) that sel(1) own(1) have "c = fst x"
      by (metis distinct_map inj_on_def)
    with sel(2) show ?thesis by simp
  qed
  with sel own show ?thesis by blast
qed

text \<open>
  C4. Every returned row belongs to a stored chunk of the document, and its
  similarity is 1 minus the cosine distance between that chunk's embedding and
  the query embedding: a number, \<open>NaN\<close> when the embedding or the query is a zero
  vector, null when the embedding is null. The rows come in ascending cosine
  distance, in PostgreSQL's order of \<^verbatim>\<open>float8\<close> with nulls last. Read on the
  similarities: the rows whose similarity is a number come first, in descending
  similarity; the rows whose similarity is \<open>NaN\<close> follow them; the rows whose
  similarity is null come last. This holds whether the table or the index is
  read.
\<close>

theorem match_chunks_similarity_order:
  assumes "match_chunks plan db q doc k = Inr rows"
  shows "(\<forall>r\<in>set rows. \<exists>c\<in>set (chunks db). c_id c = m_id r \<and> c_content c = m_content r
            \<and> document_id c = doc
            \<and> similarity r = map_option (\<lambda>e. one_minus (cosine_distance e q)) (embedding c))
    \<and> (\<forall>i j. i < j \<and> j < length rows \<longrightarrow>
          (\<exists>ci\<in>set (chunks db). \<exists>cj\<in>set (chunks db).
              c_id ci = m_id (rows ! i) \<and> c_id cj = m_id (rows ! j)
              \<and> dist_le (map_option (\<lambda>e. cosine_distance e q) (embedding ci))
                        (map_option (\<lambda>e. cosine_distance e q) (embedding cj))))
    \<and> (\<forall>i j. i < j \<and> j < length rows \<longrightarrow>
          (\<forall>b. similarity (rows ! j) = Some (Num b) \<longrightarrow>
             (\<exists>a. similarity (rows ! i) = Some (Num a) \<and> b \<le> a))
          \<and> (similarity (rows ! j) = Some NaN \<longrightarrow> similarity (rows ! i) \<noteq> None))"
proof -
  from assms obtain xs where rows: "rows = map select_row xs"
    and sub: "mset (map fst xs) \<subseteq># mset (filter (\<lambda>c. document_id c = doc) (chunks db))"
    and srt: "sorted_wrt (\<lambda>x y. dist_le (snd x) (snd y)) xs"
    and dist: "\<forall>x\<in>set xs. distance_op (embedding (fst x)) q = Inr (snd x)"
    by (rule match_chunks_Inr)
  have stored: "fst x \<in> set (chunks db) \<and> document_id (fst x) = doc
      \<and> snd x = map_option (\<lambda>e. cosine_distance e q) (embedding (fst x))"
    if "x \<in> set xs" for x
  proof -
    from that have "fst x \<in> set (map fst xs)" by simp
    with set_mset_mono [OF sub]
    have "fst x \<in> set (filter (\<lambda>c. document_id c = doc) (chunks db))"
      by (metis set_mset_mset subsetD)
    moreover from dist that have "distance_op (embedding (fst x)) q = Inr (snd x)"
      by blast
    then have "snd x = map_option (\<lambda>e. cosine_distance e q) (embedding (fst x))"
      by (cases "embedding (fst x)") (auto simp: distance_op_def split: if_splits)
    ultimately show ?thesis by simp
  qed
  have val: "\<exists>c\<in>set (chunks db). c_id c = m_id r \<and> c_content c = m_content r
      \<and> document_id c = doc
      \<and> similarity r = map_option (\<lambda>e. one_minus (cosine_distance e q)) (embedding c)"
    if "r \<in> set rows" for r
  proof -
    from that rows obtain x where x: "x \<in> set xs" and r: "r = select_row x"
      by auto
    from stored [OF x]
    have "similarity r = map_option (\<lambda>e. one_minus (cosine_distance e q)) (embedding (fst x))"
      by (simp add: r select_row_def option.map_comp comp_def)
    with stored [OF x] r show ?thesis
      by (auto simp: select_row_def)
  qed
  have le: "dist_le (snd (xs ! i)) (snd (xs ! j))" if "i < j" "j < length rows" for i j
    using srt that rows by (simp add: sorted_wrt_iff_nth_less)
  have asc: "\<exists>ci\<in>set (chunks db). \<exists>cj\<in>set (chunks db).
        c_id ci = m_id (rows ! i) \<and> c_id cj = m_id (rows ! j)
        \<and> dist_le (map_option (\<lambda>e. cosine_distance e q) (embedding ci))
                  (map_option (\<lambda>e. cosine_distance e q) (embedding cj))"
    if "i < j" "j < length rows" for i j
  proof -
    from that rows have len: "i < length xs" "j < length xs" by simp_all
    then have mem: "xs ! i \<in> set xs" "xs ! j \<in> set xs" by simp_all
    from le [OF that] stored [OF mem(1)] stored [OF mem(2)]
    have "dist_le (map_option (\<lambda>e. cosine_distance e q) (embedding (fst (xs ! i))))
        (map_option (\<lambda>e. cosine_distance e q) (embedding (fst (xs ! j))))"
      by simp
    moreover from rows len have "c_id (fst (xs ! i)) = m_id (rows ! i)"
      "c_id (fst (xs ! j)) = m_id (rows ! j)"
      by (simp_all add: select_row_def)
    ultimately show ?thesis
      using stored [OF mem(1)] stored [OF mem(2)] by blast
  qed
  have ord: "(\<forall>b. similarity (rows ! j) = Some (Num b) \<longrightarrow>
         (\<exists>a. similarity (rows ! i) = Some (Num a) \<and> b \<le> a))
      \<and> (similarity (rows ! j) = Some NaN \<longrightarrow> similarity (rows ! i) \<noteq> None)"
    if "i < j" "j < length rows" for i j
  proof -
    from that rows have len: "i < length xs" "j < length xs" by simp_all
    with rows have sim: "similarity (rows ! i) = map_option one_minus (snd (xs ! i))"
      "similarity (rows ! j) = map_option one_minus (snd (xs ! j))"
      by (simp_all add: select_row_def)
    from le [OF that] show ?thesis
      unfolding sim
      by (cases "snd (xs ! i)"; cases "snd (xs ! j)";
          cases "the (snd (xs ! i))"; cases "the (snd (xs ! j))") auto
  qed
  from val asc ord show ?thesis by blast
qed

text \<open>
  C5, as amended. Leaving \<open>match_count\<close> out is the same as passing 5, and then
  at most 5 rows come back. A caller's \<open>k\<close> replaces the default: a call that
  succeeds has \<open>k \<ge> 0\<close> and returns at most \<open>k\<close> rows and at most as many as the
  document has chunks; read from the table, it returns exactly \<open>k\<close> rows, or all
  the document's chunks when there are fewer. With the column and the query of
  the declared dimension, every \<open>k\<close> larger than the number of the document's
  chunks gives no error, and the rows returned are chunks of the document, none
  of them twice: all of them when the table is read, and when the index is read
  only such as are in a probed list of the index, which holds no chunk with a
  null or zero embedding.
\<close>

theorem match_chunks_count:
  fixes plan :: plan and db :: database and q :: vector and doc :: uuid
  defines "own \<equiv> filter (\<lambda>c. document_id c = doc) (chunks db)"
  shows "match_chunks plan db q doc None = match_chunks plan db q doc (Some 5)
    \<and> (\<forall>rows. match_chunks plan db q doc None = Inr rows \<longrightarrow> length rows \<le> 5)
    \<and> (\<forall>k rows. match_chunks plan db q doc (Some k) = Inr rows \<longrightarrow>
          0 \<le> k \<and> length rows \<le> nat k \<and> length rows \<le> length own
          \<and> (plan = Seq_scan \<longrightarrow> length rows = min (nat k) (length own)))
    \<and> (column_types db \<and> length q = embedding_dim \<longrightarrow>
         (\<forall>k. int (length own) < k \<longrightarrow>
            (\<exists>rows. match_chunks plan db q doc (Some k) = Inr rows
               \<and> mset (map (\<lambda>r. (m_id r, m_content r)) rows) \<subseteq>#
                  mset (map (\<lambda>c. (c_id c, c_content c)) own)
               \<and> (plan = Seq_scan \<longrightarrow>
                    mset (map (\<lambda>r. (m_id r, m_content r)) rows) =
                    mset (map (\<lambda>c. (c_id c, c_content c)) own))
               \<and> (\<forall>probed. plan = Index_scan probed \<longrightarrow>
                    mset (map (\<lambda>r. (m_id r, m_content r)) rows) \<subseteq>#
                    mset (map (\<lambda>c. (c_id c, c_content c))
                           (filter (\<lambda>c. probed c \<and> indexed c) own))))))"
proof -
  have default: "match_chunks plan db q doc None = match_chunks plan db q doc (Some 5)"
    by (simp add: match_chunks_def)
  have fields: "map (\<lambda>r. (m_id r, m_content r)) (map select_row xs) =
      map (\<lambda>c. (c_id c, c_content c)) (map fst xs)" for xs
    by (simp add: select_row_def comp_def)
  have len: "0 \<le> k \<and> length rows \<le> nat k \<and> length rows \<le> length own
      \<and> (plan = Seq_scan \<longrightarrow> length rows = min (nat k) (length own))"
    if "match_chunks plan db q doc (Some k) = Inr rows" for k rows
  proof -
    from match_chunks_Inr [OF that] obtain xs where rows: "rows = map select_row xs"
      and sub: "mset (map fst xs) \<subseteq># mset own"
      and k: "0 \<le> k" "length xs \<le> nat k"
      and seq: "plan = Seq_scan \<Longrightarrow> length xs = min (nat k) (length own)"
      unfolding own_def option.case by blast
    from size_mset_mono [OF sub] have "length xs \<le> length own" by simp
    with rows k seq show ?thesis by simp
  qed
  have five: "length rows \<le> 5" if "match_chunks plan db q doc None = Inr rows" for rows
    using len [of 5 rows] that default by simp
  have all: "\<exists>rows. match_chunks plan db q doc (Some k) = Inr rows
      \<and> mset (map (\<lambda>r. (m_id r, m_content r)) rows) \<subseteq>#
         mset (map (\<lambda>c. (c_id c, c_content c)) own)
      \<and> (plan = Seq_scan \<longrightarrow>
           mset (map (\<lambda>r. (m_id r, m_content r)) rows) =
           mset (map (\<lambda>c. (c_id c, c_content c)) own))
      \<and> (\<forall>probed. plan = Index_scan probed \<longrightarrow>
           mset (map (\<lambda>r. (m_id r, m_content r)) rows) \<subseteq>#
           mset (map (\<lambda>c. (c_id c, c_content c)) (filter (\<lambda>c. probed c \<and> indexed c) own)))"
    if types: "column_types db" "length q = embedding_dim" and k: "int (length own) < k" for k
  proof -
    from k have "0 < k" by simp
    from match_chunks_succeeds [OF types this]
    obtain rows where m: "match_chunks plan db q doc (Some k) = Inr rows" by blast
    from match_chunks_Inr [OF m] obtain xs where rows: "rows = map select_row xs"
      and sub: "mset (map fst xs) \<subseteq># mset own"
      and seq: "plan = Seq_scan \<Longrightarrow> length xs = min (nat k) (length own)"
      and idx: "\<And>probed. plan = Index_scan probed \<Longrightarrow>
          mset (map fst xs) \<subseteq># mset (filter (\<lambda>c. probed c \<and> indexed c) own)"
      unfolding own_def option.case by blast
    have a: "mset (map (\<lambda>r. (m_id r, m_content r)) rows) \<subseteq>#
        mset (map (\<lambda>c. (c_id c, c_content c)) own)"
    proof -
      from image_mset_subseteq_mono [OF sub, of "\<lambda>c. (c_id c, c_content c)"]
      have "mset (map (\<lambda>c. (c_id c, c_content c)) (map fst xs)) \<subseteq>#
          mset (map (\<lambda>c. (c_id c, c_content c)) own)"
        by (simp only: mset_map)
      then show ?thesis
        unfolding rows fields .
    qed
    have b: "mset (map (\<lambda>r. (m_id r, m_content r)) rows) =
        mset (map (\<lambda>c. (c_id c, c_content c)) own)" if "plan = Seq_scan"
    proof -
      from seq [OF that] k have "size (mset (map fst xs)) = size (mset own)"
        by simp
      with sub have "mset (map fst xs) = mset own"
        by (metis mset_subset_size order_less_irrefl subset_mset.le_neq_trans)
      then have "mset (map (\<lambda>c. (c_id c, c_content c)) (map fst xs)) =
          mset (map (\<lambda>c. (c_id c, c_content c)) own)"
        by (metis mset_map)
      then show ?thesis
        unfolding rows fields .
    qed
    have c: "mset (map (\<lambda>r. (m_id r, m_content r)) rows) \<subseteq>#
        mset (map (\<lambda>c. (c_id c, c_content c)) (filter (\<lambda>c. probed c \<and> indexed c) own))"
      if "plan = Index_scan probed" for probed
    proof -
      from image_mset_subseteq_mono [OF idx [OF that], of "\<lambda>c. (c_id c, c_content c)"]
      have "mset (map (\<lambda>c. (c_id c, c_content c)) (map fst xs)) \<subseteq>#
          mset (map (\<lambda>c. (c_id c, c_content c)) (filter (\<lambda>c. probed c \<and> indexed c) own))"
        by (simp only: mset_map)
      then show ?thesis
        unfolding rows fields .
    qed
    from m a b c show ?thesis by blast
  qed
  show ?thesis
  proof (intro conjI allI impI)
    show "match_chunks plan db q doc None = match_chunks plan db q doc (Some 5)"
      by (rule default)
  next
    fix rows assume "match_chunks plan db q doc None = Inr rows"
    then show "length rows \<le> 5" by (rule five)
  next
    fix k rows assume m: "match_chunks plan db q doc (Some k) = Inr rows"
    from len [OF m] show "0 \<le> k" "length rows \<le> nat k" "length rows \<le> length own"
      by simp_all
    assume "plan = Seq_scan"
    with len [OF m] show "length rows = min (nat k) (length own)" by simp
  next
    fix k assume "column_types db \<and> length q = embedding_dim" "int (length own) < k"
    then show "\<exists>rows. match_chunks plan db q doc (Some k) = Inr rows
      \<and> mset (map (\<lambda>r. (m_id r, m_content r)) rows) \<subseteq>#
         mset (map (\<lambda>c. (c_id c, c_content c)) own)
      \<and> (plan = Seq_scan \<longrightarrow>
           mset (map (\<lambda>r. (m_id r, m_content r)) rows) =
           mset (map (\<lambda>c. (c_id c, c_content c)) own))
      \<and> (\<forall>probed. plan = Index_scan probed \<longrightarrow>
           mset (map (\<lambda>r. (m_id r, m_content r)) rows) \<subseteq>#
           mset (map (\<lambda>c. (c_id c, c_content c)) (filter (\<lambda>c. probed c \<and> indexed c) own)))"
      using all by blast
  qed
qed

section \<open>The similarity search at the sample database\<close>

lemma dot_replicate: "dot (replicate n a) (replicate n b) = real n * (a * b)"
  by (induction n) (simp_all add: dot_def algebra_simps)

lemma dot_append:
  "length a = length b \<Longrightarrow> dot (a @ a') (b @ b') = dot a b + dot a' b'"
  by (simp add: dot_def)

lemma sample_lengths:
  "length vec_pos = 768" "length vec_neg = 768" "length vec_mix = 768" "length vec_zero = 768"
  by (simp_all add: vec_pos_def vec_neg_def vec_mix_def vec_zero_def)

lemma sample_dots:
  "dot vec_pos vec_pos = 768" "dot vec_neg vec_neg = 768" "dot vec_mix vec_mix = 768"
  "dot vec_neg vec_pos = - 768" "dot vec_mix vec_pos = 0" "dot vec_zero vec_zero = 0"
proof -
  have split: "replicate 768 (1::real) = replicate 384 1 @ replicate 384 1"
    by (simp flip: replicate_add)
  show "dot vec_pos vec_pos = 768" "dot vec_neg vec_neg = 768" "dot vec_neg vec_pos = - 768"
    "dot vec_zero vec_zero = 0"
    by (simp_all add: vec_pos_def vec_neg_def vec_zero_def dot_replicate)
  show "dot vec_mix vec_mix = 768"
    by (simp add: vec_mix_def dot_append dot_replicate)
  show "dot vec_mix vec_pos = 0"
    unfolding vec_mix_def vec_pos_def split
    by (simp add: dot_append dot_replicate)
qed

lemma sample_distances:
  "cosine_distance vec_pos vec_pos = Num 0" "cosine_distance vec_neg vec_pos = Num 2"
  "cosine_distance vec_mix vec_pos = Num 1" "cosine_distance vec_zero vec_pos = NaN"
  by (simp_all add: cosine_distance_def sample_dots)

lemma sample_chunk_fields:
  "document_id chunk_c1 = ''doc-a''" "document_id chunk_c2 = ''doc-a''"
  "document_id chunk_c3 = ''doc-a''" "document_id chunk_c4 = ''doc-a''"
  "document_id chunk_c5 = ''doc-b''" "document_id chunk_c6 = ''doc-a''"
  "embedding chunk_c1 = Some vec_neg" "embedding chunk_c2 = None"
  "embedding chunk_c3 = Some vec_pos" "embedding chunk_c4 = Some vec_mix"
  "embedding chunk_c5 = Some vec_pos" "embedding chunk_c6 = Some vec_zero"
  "c_id chunk_c1 = ''c1''" "c_id chunk_c2 = ''c2''" "c_id chunk_c3 = ''c3''"
  "c_id chunk_c4 = ''c4''" "c_id chunk_c5 = ''c5''" "c_id chunk_c6 = ''c6''"
  "c_content chunk_c1 = ''alpha''" "c_content chunk_c2 = ''beta''"
  "c_content chunk_c3 = ''gamma''" "c_content chunk_c4 = ''delta''"
  "c_content chunk_c5 = ''other''" "c_content chunk_c6 = ''zeta''"
  by (simp_all add: chunk_c1_def chunk_c2_def chunk_c3_def chunk_c4_def chunk_c5_def
      chunk_c6_def)

lemma sample_own:
  "filter (\<lambda>c. document_id c = ''doc-a'') (chunks sample_db) =
     [chunk_c1, chunk_c2, chunk_c3, chunk_c4, chunk_c6]"
  by (simp add: sample_db_def sample_chunks_def sample_chunk_fields)

lemma sample_with_distances:
  "with_distances vec_pos [chunk_c1, chunk_c2, chunk_c3, chunk_c4, chunk_c6] =
     Inr [(chunk_c1, Some (Num 2)), (chunk_c2, None), (chunk_c3, Some (Num 0)),
          (chunk_c4, Some (Num 1)), (chunk_c6, Some NaN)]"
  by (simp add: sample_chunk_fields distance_op_def sample_lengths sample_distances)

lemma sample_order_by:
  "order_by [(chunk_c1, Some (Num 2)), (chunk_c2, None), (chunk_c3, Some (Num 0)),
             (chunk_c4, Some (Num 1)), (chunk_c6, Some NaN)] =
     [(chunk_c3, Some (Num 0)), (chunk_c4, Some (Num 1)), (chunk_c1, Some (Num 2)),
      (chunk_c6, Some NaN), (chunk_c2, None)]"
  by simp

lemma sample_select:
  "map select_row [(chunk_c3, Some (Num 0)), (chunk_c4, Some (Num 1)), (chunk_c1, Some (Num 2)),
      (chunk_c6, Some NaN), (chunk_c2, None)]
     = sample_rows"
  by (simp add: select_row_def sample_chunk_fields sample_rows_def)

lemma match_chunks_sample:
  "match_chunks Seq_scan sample_db vec_pos ''doc-a'' None = Inr sample_rows"
  "match_chunks Seq_scan sample_db vec_pos ''doc-a'' (Some 10) = Inr sample_rows"
  "match_chunks Seq_scan sample_db vec_pos ''doc-a'' (Some 2) = Inr (take 2 sample_rows)"
  unfolding match_chunks_def sample_own sample_with_distances
  by (simp_all add: sample_order_by take_map del: order_by.simps flip: sample_select)

lemma sample_distinct_ids: "distinct (map c_id (chunks sample_db))"
  by (simp add: sample_db_def sample_chunks_def sample_chunk_fields)

lemma sample_chunk_set:
  "set (chunks sample_db) = {chunk_c1, chunk_c2, chunk_c3, chunk_c4, chunk_c5, chunk_c6}"
  by (simp add: sample_db_def sample_chunks_def)

lemma sample_indexed:
  "indexed chunk_c1" "\<not> indexed chunk_c2" "indexed chunk_c3" "indexed chunk_c4"
  "indexed chunk_c5" "\<not> indexed chunk_c6"
  by (simp_all add: indexed_def sample_chunk_fields sample_dots)

lemma sample_probed:
  "filter (\<lambda>c. (c_id c = ''c3'' \<or> c_id c = ''c5'') \<and> indexed c) (chunks sample_db) =
     [chunk_c3, chunk_c5]"
  by (simp add: sample_db_def sample_chunks_def sample_chunk_fields sample_indexed)

lemma match_chunks_sample_index:
  "match_chunks (Index_scan (\<lambda>c. c_id c = ''c3'' \<or> c_id c = ''c5'')) sample_db vec_pos
     ''doc-a'' (Some 10) =
   Inr [\<lparr>m_id = ''c3'', m_content = ''gamma'', similarity = Some (Num 1)\<rparr>]"
proof -
  have "match_chunks (Index_scan probed) sample_db vec_pos ''doc-a'' (Some 10) =
      (case with_distances vec_pos (filter (\<lambda>c. probed c \<and> indexed c) (chunks sample_db)) of
         Inl err \<Rightarrow> Inl err
       | Inr rows \<Rightarrow>
           Inr (map select_row
             (take (nat 10) (filter (\<lambda>x. document_id (fst x) = ''doc-a'') (order_by rows)))))"
    for probed
    by (simp add: match_chunks_def sample_lengths embedding_dim_def)
  from this [of "\<lambda>c. c_id c = ''c3'' \<or> c_id c = ''c5''", unfolded sample_probed]
  show ?thesis
    by (simp add: sample_lengths distance_op_def sample_chunk_fields sample_distances
        select_row_def)
qed

lemma match_chunks_sample_short_query:
  "match_chunks plan sample_db [1, 2, 3] ''doc-a'' (Some 10) = Inl (Different_dimensions 768 3)"
proof (cases plan)
  case Seq_scan
  show ?thesis
    unfolding match_chunks_def sample_own Seq_scan
    by (simp add: distance_op_def sample_chunk_fields sample_lengths)
next
  case (Index_scan probed)
  show ?thesis
    unfolding match_chunks_def Index_scan
    by (simp add: embedding_dim_def)
qed

theorem match_chunks_scoped_to_document_witness:
  "distinct (map c_id (chunks sample_db))
   \<and> match_chunks Seq_scan sample_db vec_pos ''doc-a'' None = Inr sample_rows
   \<and> (\<exists>c\<in>set (chunks sample_db). c_id c = ''c3'' \<and> c_content c = ''gamma''
         \<and> document_id c = ''doc-a'')
   \<and> \<not> (\<exists>c\<in>set (chunks sample_db). c_id c = ''c3'' \<and> document_id c = ''doc-b'')"
proof -
  let ?r = "\<lparr>m_id = ''c3'', m_content = ''gamma'', similarity = Some (Num 1)\<rparr>"
  have r: "?r \<in> set sample_rows"
    by (simp add: sample_rows_def)
  from match_chunks_scoped_to_document [OF sample_distinct_ids match_chunks_sample(1) r]
  have "\<exists>c\<in>set (chunks sample_db). c_id c = ''c3'' \<and> c_content c = ''gamma''
         \<and> document_id c = ''doc-a''"
    and "\<forall>c\<in>set (chunks sample_db). c_id c = ''c3'' \<longrightarrow> document_id c = ''doc-a''"
    by simp_all
  then show ?thesis
    using sample_distinct_ids match_chunks_sample(1) by auto
qed

theorem match_chunks_similarity_order_witness:
  "match_chunks Seq_scan sample_db vec_pos ''doc-a'' None = Inr sample_rows
   \<and> (\<exists>c\<in>set (chunks sample_db). c_id c = ''c4''
         \<and> similarity (sample_rows ! 1) =
             map_option (\<lambda>e. one_minus (cosine_distance e vec_pos)) (embedding c))
   \<and> (\<exists>ci\<in>set (chunks sample_db). \<exists>cj\<in>set (chunks sample_db). c_id ci = ''c1'' \<and> c_id cj = ''c6''
         \<and> dist_le (map_option (\<lambda>e. cosine_distance e vec_pos) (embedding ci))
                   (map_option (\<lambda>e. cosine_distance e vec_pos) (embedding cj)))
   \<and> (\<exists>a. similarity (sample_rows ! 0) = Some (Num a) \<and> - 1 \<le> a)
   \<and> similarity (sample_rows ! 2) \<noteq> None
   \<and> similarity (sample_rows ! 3) = Some NaN
   \<and> similarity (sample_rows ! 4) = None"
proof -
  note t = match_chunks_similarity_order [OF match_chunks_sample(1)]
  have r: "sample_rows ! 1 \<in> set sample_rows"
    by (simp add: sample_rows_def)
  from t have "\<forall>r\<in>set sample_rows. \<exists>c\<in>set (chunks sample_db). c_id c = m_id r
      \<and> c_content c = m_content r \<and> document_id c = ''doc-a''
      \<and> similarity r = map_option (\<lambda>e. one_minus (cosine_distance e vec_pos)) (embedding c)"
    by (rule conjunct1)
  from this [rule_format, OF r]
  have a: "\<exists>c\<in>set (chunks sample_db). c_id c = ''c4''
      \<and> similarity (sample_rows ! 1) =
          map_option (\<lambda>e. one_minus (cosine_distance e vec_pos)) (embedding c)"
    by (auto simp: sample_rows_def)
  from t have "\<forall>i j. i < j \<and> j < length sample_rows \<longrightarrow>
      (\<exists>ci\<in>set (chunks sample_db). \<exists>cj\<in>set (chunks sample_db).
          c_id ci = m_id (sample_rows ! i) \<and> c_id cj = m_id (sample_rows ! j)
          \<and> dist_le (map_option (\<lambda>e. cosine_distance e vec_pos) (embedding ci))
                    (map_option (\<lambda>e. cosine_distance e vec_pos) (embedding cj)))"
    by (elim conjE)
  from this [rule_format, of 2 3]
  have b: "\<exists>ci\<in>set (chunks sample_db). \<exists>cj\<in>set (chunks sample_db). c_id ci = ''c1'' \<and> c_id cj = ''c6''
      \<and> dist_le (map_option (\<lambda>e. cosine_distance e vec_pos) (embedding ci))
                (map_option (\<lambda>e. cosine_distance e vec_pos) (embedding cj))"
    by (simp add: sample_rows_def)
  from t have ord: "\<forall>i j. i < j \<and> j < length sample_rows \<longrightarrow>
      (\<forall>b. similarity (sample_rows ! j) = Some (Num b) \<longrightarrow>
         (\<exists>a. similarity (sample_rows ! i) = Some (Num a) \<and> b \<le> a))
      \<and> (similarity (sample_rows ! j) = Some NaN \<longrightarrow> similarity (sample_rows ! i) \<noteq> None)"
    by (elim conjE)
  from ord [rule_format, of 0 2]
  have c: "\<exists>a. similarity (sample_rows ! 0) = Some (Num a) \<and> - 1 \<le> a"
    by (simp add: sample_rows_def)
  from ord [rule_format, of 2 3]
  have d: "similarity (sample_rows ! 2) \<noteq> None"
    by (simp add: sample_rows_def)
  have e: "similarity (sample_rows ! 3) = Some NaN" "similarity (sample_rows ! 4) = None"
    by (simp_all add: sample_rows_def)
  from a b c d e match_chunks_sample(1) show ?thesis by simp
qed

lemma sample_column_types: "column_types sample_db"
  by (simp add: column_types_def sample_chunk_set sample_chunk_fields sample_lengths
      embedding_dim_def)

lemma length_filter_conj_le:
  "length (filter (\<lambda>x. P x \<and> Q x) xs) \<le> length (filter Q xs)"
  by (induction xs) auto

lemma match_chunks_sample_index_bound:
  "\<exists>rows. match_chunks (Index_scan probed) sample_db vec_pos ''doc-a'' (Some 10) = Inr rows
     \<and> length rows \<le> 3"
proof -
  let ?own = "filter (\<lambda>c. document_id c = ''doc-a'') (chunks sample_db)"
  have "length vec_pos = embedding_dim"
    by (simp add: sample_lengths embedding_dim_def)
  from match_chunks_succeeds [OF sample_column_types this, of 10 "Index_scan probed" "''doc-a''"]
  obtain rows
    where m: "match_chunks (Index_scan probed) sample_db vec_pos ''doc-a'' (Some 10) = Inr rows"
    by auto
  from match_chunks_Inr [OF m] obtain xs where rows: "rows = map select_row xs"
    and idx: "mset (map fst xs) \<subseteq># mset (filter (\<lambda>c. probed c \<and> indexed c) ?own)"
    by blast
  from size_mset_mono [OF idx]
  have "length xs \<le> length (filter (\<lambda>c. probed c \<and> indexed c) ?own)"
    by (simp only: size_mset length_map)
  also have "\<dots> \<le> length (filter indexed ?own)"
    by (rule length_filter_conj_le)
  also have "filter indexed ?own = [chunk_c1, chunk_c3, chunk_c4]"
    unfolding sample_own by (simp add: sample_indexed)
  finally have "length rows \<le> 3"
    by (simp add: rows)
  with m show ?thesis by blast
qed

text \<open>
  C5 as stated fails. Document \<open>doc-a\<close> has five chunks and \<open>k\<close> is 10.
  A query embedding of three components is not refused at the call, and the
  search then fails with an error where the query is compared, under either
  plan. And with a query embedding of 768 components, a search answered from
  the index gives no error and returns at most three of the five chunks,
  whichever lists are probed: the chunk with a null embedding and the chunk with
  a zero embedding are not in the index.
\<close>

theorem match_chunks_large_k_counterexample:
  "length (filter (\<lambda>c. document_id c = ''doc-a'') (chunks sample_db)) = 5
   \<and> (\<forall>plan. match_chunks plan sample_db [1, 2, 3] ''doc-a'' (Some 10) =
         Inl (Different_dimensions 768 3))
   \<and> (\<forall>probed. \<exists>rows.
         match_chunks (Index_scan probed) sample_db vec_pos ''doc-a'' (Some 10) = Inr rows
         \<and> length rows \<le> 3)"
  using match_chunks_sample_short_query match_chunks_sample_index_bound
  by (simp add: sample_own)

theorem match_chunks_count_witness:
  "column_types sample_db \<and> length vec_pos = embedding_dim
   \<and> length sample_rows \<le> 5
   \<and> length (take 2 sample_rows) = 2
   \<and> (\<exists>rows. match_chunks Seq_scan sample_db vec_pos ''doc-a'' (Some 10) = Inr rows
         \<and> mset (map (\<lambda>r. (m_id r, m_content r)) rows) =
            mset (map (\<lambda>c. (c_id c, c_content c))
              [chunk_c1, chunk_c2, chunk_c3, chunk_c4, chunk_c6]))
   \<and> (\<exists>rows. match_chunks (Index_scan (\<lambda>c. c_id c = ''c3'' \<or> c_id c = ''c5'')) sample_db
           vec_pos ''doc-a'' (Some 10) = Inr rows
         \<and> mset (map (\<lambda>r. (m_id r, m_content r)) rows) \<subseteq>#
            mset (map (\<lambda>c. (c_id c, c_content c)) [chunk_c3]))"
proof -
  let ?probed = "\<lambda>c. c_id c = ''c3'' \<or> c_id c = ''c5''"
  note types = sample_column_types
  have q: "length vec_pos = embedding_dim"
    by (simp add: sample_lengths embedding_dim_def)
  have big: "int (length (filter (\<lambda>c. document_id c = ''doc-a'') (chunks sample_db))) < 10"
    by (simp add: sample_own)
  have one: "filter (\<lambda>c. ?probed c \<and> indexed c)
      (filter (\<lambda>c. document_id c = ''doc-a'') (chunks sample_db)) = [chunk_c3]"
    unfolding sample_own by (simp add: sample_chunk_fields sample_indexed)
  note t = match_chunks_count [where plan = Seq_scan and db = sample_db and q = vec_pos
      and doc = "''doc-a''"]
  note u = match_chunks_count [where plan = "Index_scan ?probed" and db = sample_db
      and q = vec_pos and doc = "''doc-a''"]
  from t match_chunks_sample(1) have five: "length sample_rows \<le> 5"
    by blast
  from t match_chunks_sample(3) have "length (take 2 sample_rows) =
      min (nat 2) (length (filter (\<lambda>c. document_id c = ''doc-a'') (chunks sample_db)))"
    by blast
  then have two: "length (take 2 sample_rows) = 2"
    by (simp add: sample_own)
  from t types q big
  have "\<exists>rows. match_chunks Seq_scan sample_db vec_pos ''doc-a'' (Some 10) = Inr rows
      \<and> mset (map (\<lambda>r. (m_id r, m_content r)) rows) =
         mset (map (\<lambda>c. (c_id c, c_content c))
           (filter (\<lambda>c. document_id c = ''doc-a'') (chunks sample_db)))"
    by blast
  then have all: "\<exists>rows. match_chunks Seq_scan sample_db vec_pos ''doc-a'' (Some 10) = Inr rows
      \<and> mset (map (\<lambda>r. (m_id r, m_content r)) rows) =
         mset (map (\<lambda>c. (c_id c, c_content c))
           [chunk_c1, chunk_c2, chunk_c3, chunk_c4, chunk_c6])"
    unfolding sample_own .
  from u types q big
  have "\<exists>rows. match_chunks (Index_scan ?probed) sample_db vec_pos ''doc-a'' (Some 10) = Inr rows
      \<and> mset (map (\<lambda>r. (m_id r, m_content r)) rows) \<subseteq>#
         mset (map (\<lambda>c. (c_id c, c_content c))
           (filter (\<lambda>c. ?probed c \<and> indexed c)
             (filter (\<lambda>c. document_id c = ''doc-a'') (chunks sample_db))))"
    by blast
  then have part: "\<exists>rows. match_chunks (Index_scan ?probed) sample_db vec_pos ''doc-a''
        (Some 10) = Inr rows
      \<and> mset (map (\<lambda>r. (m_id r, m_content r)) rows) \<subseteq>#
         mset (map (\<lambda>c. (c_id c, c_content c)) [chunk_c3])"
    unfolding one .
  from types q five two all part show ?thesis by blast
qed

section \<open>Properties of the writes to the vector store\<close>

lemma embedding_new_row: "embedding (new_row doc now item) = Some (snd (snd (snd item)))"
  and c_id_new_row: "c_id (new_row doc now item) = fst item"
  by (cases item; simp add: new_row_def)+

lemma upsert_Inr:
  assumes "upsert doc now items db = Inr db'"
  shows "db' = db\<lparr>chunks := chunks db @ map (new_row doc now) items\<rparr>"
    and "\<forall>item\<in>set items. length (snd (snd (snd item))) = embedding_dim"
    and "distinct (map fst items)"
    and "\<forall>item\<in>set items. fst item \<notin> c_id ` set (chunks db)"
  using assms
  by (auto simp: upsert_def find_None_iff split: if_splits option.splits)

lemma apply_op_invariant:
  assumes "distinct (map c_id (chunks db))"
    and "\<forall>c\<in>set (chunks db). \<exists>e. embedding c = Some e \<and> length e = embedding_dim"
    and "apply_op op db = Inr db'"
  shows "distinct (map c_id (chunks db'))
    \<and> (\<forall>c\<in>set (chunks db'). \<exists>e. embedding c = Some e \<and> length e = embedding_dim)"
proof (cases op)
  case (Create_document d)
  with assms show ?thesis
    by (auto simp: create_document_def split: if_splits)
next
  case (Upsert doc now items)
  with assms(3) have u: "upsert doc now items db = Inr db'" by simp
  note U = upsert_Inr [OF u]
  have ids: "map (c_id \<circ> new_row doc now) items = map fst items"
    by (rule map_cong) (simp_all add: c_id_new_row)
  from U(4) have "set (map c_id (chunks db)) \<inter> set (map fst items) = {}"
    by force
  with U(3) assms(1) have "distinct (map c_id (chunks db) @ map fst items)"
    by simp
  with U(1) have "distinct (map c_id (chunks db'))"
    by (simp add: ids)
  moreover from U assms(2)
  have "\<forall>c\<in>set (chunks db'). \<exists>e. embedding c = Some e \<and> length e = embedding_dim"
    by (auto simp: embedding_new_row)
  ultimately show ?thesis by simp
next
  case (Delete_document doc)
  with assms show ?thesis
    by (auto simp: delete_document_def distinct_map_filter)
qed

lemma run_ops_invariant:
  assumes "distinct (map c_id (chunks db))"
    and "\<forall>c\<in>set (chunks db). \<exists>e. embedding c = Some e \<and> length e = embedding_dim"
  shows "distinct (map c_id (chunks (run_ops ops db)))
    \<and> (\<forall>c\<in>set (chunks (run_ops ops db)). \<exists>e. embedding c = Some e \<and> length e = embedding_dim)"
  using assms
proof (induction ops arbitrary: db)
  case Nil
  then show ?case by simp
next
  case (Cons op ops)
  show ?case
  proof (cases "apply_op op db")
    case (Inl err)
    with Cons show ?thesis by simp
  next
    case (Inr db')
    from apply_op_invariant [OF Cons.prems Inr] Cons.IH [of db'] Inr
    show ?thesis by simp
  qed
qed

lemma apply_op_keeps_rows:
  assumes "distinct (map c_id (chunks db))"
    and "apply_op op db = Inr db'"
    and "c \<in> set (chunks db)"
  shows "(\<forall>c'\<in>set (chunks db'). c_id c' = c_id c \<longrightarrow> c' = c)
    \<and> (c \<notin> set (chunks db') \<longrightarrow> op = Delete_document (document_id c))"
proof (cases op)
  case (Create_document d)
  with assms show ?thesis
    by (auto simp: create_document_def distinct_map inj_on_def split: if_splits)
next
  case (Upsert doc now items)
  with assms(2) have u: "upsert doc now items db = Inr db'" by simp
  note U = upsert_Inr [OF u]
  have "c' = c" if "c' \<in> set (chunks db')" "c_id c' = c_id c" for c'
  proof (cases "c' \<in> set (chunks db)")
    case True
    with assms(1,3) that(2) show ?thesis
      by (auto simp: distinct_map inj_on_def)
  next
    case False
    with that(1) U(1) obtain item where "item \<in> set items" "c' = new_row doc now item"
      by auto
    with U(4) that(2) assms(3) show ?thesis
      by (auto simp: c_id_new_row)
  qed
  moreover from U(1) assms(3) have "c \<in> set (chunks db')" by simp
  ultimately show ?thesis by blast
next
  case (Delete_document doc)
  with assms show ?thesis
    by (auto simp: delete_document_def distinct_map inj_on_def)
qed

lemma with_distances_dimensions:
  "with_distances q cs = Inr ds \<Longrightarrow>
   \<forall>c\<in>set cs. \<forall>e. embedding c = Some e \<longrightarrow> length e = length q"
  by (induction cs arbitrary: ds)
    (auto simp: distance_op_def split: sum.splits option.splits if_splits)

lemma match_chunks_wrong_dimension:
  assumes "\<forall>c\<in>set (chunks db). \<exists>e. embedding c = Some e \<and> length e = embedding_dim"
    and "length q \<noteq> embedding_dim"
    and "c \<in> set (chunks db)" "document_id c = doc"
    and "k \<noteq> Some 0"
  shows "\<exists>err. match_chunks plan db q doc k = Inl err"
proof (cases "match_chunks plan db q doc k")
  case (Inl err)
  then show ?thesis by blast
next
  case (Inr rows)
  let ?n = "case k of None \<Rightarrow> 5 | Some n \<Rightarrow> n"
  from assms(5) have n: "?n \<noteq> 0"
    by (cases k) simp_all
  show ?thesis
  proof (cases plan)
    case Seq_scan
    with Inr n obtain ds
      where "with_distances q (filter (\<lambda>c. document_id c = doc) (chunks db)) = Inr ds"
      by (auto simp: match_chunks_def Let_def split: if_splits sum.splits)
    from with_distances_dimensions [OF this] assms(3,4)
    have "\<forall>e. embedding c = Some e \<longrightarrow> length e = length q"
      by simp
    with assms(1,2,3) show ?thesis by force
  next
    case (Index_scan probed)
    with Inr n assms(2) show ?thesis
      by (auto simp: match_chunks_def Let_def split: if_splits)
  qed
qed

lemma match_chunks_limit_0: "match_chunks plan db q doc (Some 0) = Inr []"
  by (simp add: match_chunks_def)

text \<open>
  C7, as amended. In every store reached from the empty one by creations of
  documents, upserts and deletions of documents, every chunk has an embedding
  and all embeddings have the same dimension, 768. A further write never changes
  the embedding stored under a chunk's \<open>id\<close>; a chunk leaves the store only when
  its owning document is deleted. \<open>match_chunks\<close> writes nothing. A query
  embedding of another dimension is refused with an error when the document has
  a chunk to compare it with and \<open>match_count\<close> is not 0; with \<open>match_count\<close> 0
  every query embedding is accepted, and no row is returned.
\<close>

theorem embedding_dimension_fixed_and_immutable:
  fixes ops :: "store_op list"
  defines "db \<equiv> run_ops ops empty_database"
  shows "(\<forall>c\<in>set (chunks db). \<exists>e. embedding c = Some e \<and> length e = embedding_dim)
    \<and> embedding_dim = 768
    \<and> (\<forall>op db' c. apply_op op db = Inr db' \<and> c \<in> set (chunks db) \<longrightarrow>
          (\<forall>c'\<in>set (chunks db'). c_id c' = c_id c \<longrightarrow> embedding c' = embedding c)
          \<and> (c \<notin> set (chunks db') \<longrightarrow> op = Delete_document (document_id c)))
    \<and> (\<forall>plan (q :: vector) doc (k :: int option).
          length q \<noteq> embedding_dim \<and> (\<exists>c\<in>set (chunks db). document_id c = doc)
          \<and> k \<noteq> Some 0 \<longrightarrow>
          (\<exists>err. match_chunks plan db q doc k = Inl err))
    \<and> (\<forall>plan (q :: vector) doc. match_chunks plan db q doc (Some 0) = Inr [])"
proof -
  have inv: "distinct (map c_id (chunks db))
      \<and> (\<forall>c\<in>set (chunks db). \<exists>e. embedding c = Some e \<and> length e = embedding_dim)"
    unfolding db_def by (rule run_ops_invariant) (simp_all add: empty_database_def)
  have keep: "(\<forall>c'\<in>set (chunks db'). c_id c' = c_id c \<longrightarrow> embedding c' = embedding c)
      \<and> (c \<notin> set (chunks db') \<longrightarrow> op = Delete_document (document_id c))"
    if "apply_op op db = Inr db'" "c \<in> set (chunks db)" for op db' c
    using apply_op_keeps_rows [OF conjunct1 [OF inv] that] by blast
  have dim: "\<exists>err. match_chunks plan db q doc k = Inl err"
    if "length q \<noteq> embedding_dim" "\<exists>c\<in>set (chunks db). document_id c = doc" "k \<noteq> Some 0"
    for plan and q :: vector and doc and k :: "int option"
  proof -
    from that(2) obtain c where "c \<in> set (chunks db)" "document_id c = doc" by blast
    from match_chunks_wrong_dimension [OF conjunct2 [OF inv] that(1) this that(3)]
    show ?thesis .
  qed
  show ?thesis
  proof (intro conjI allI impI)
    show "\<forall>c\<in>set (chunks db). \<exists>e. embedding c = Some e \<and> length e = embedding_dim"
      using inv by (rule conjunct2)
  next
    show "embedding_dim = 768" by (rule embedding_dim_def)
  next
    fix op db' c assume a: "apply_op op db = Inr db' \<and> c \<in> set (chunks db)"
    then show "\<forall>c'\<in>set (chunks db'). c_id c' = c_id c \<longrightarrow> embedding c' = embedding c"
      using keep by blast
    from a show "c \<notin> set (chunks db') \<Longrightarrow> op = Delete_document (document_id c)"
      using keep by blast
  next
    fix plan and q :: vector and doc and k :: "int option"
    assume "length q \<noteq> embedding_dim \<and> (\<exists>c\<in>set (chunks db). document_id c = doc)
      \<and> k \<noteq> Some 0"
    then show "\<exists>err. match_chunks plan db q doc k = Inl err"
      using dim by blast
  next
    fix plan and q :: vector and doc
    show "match_chunks plan db q doc (Some 0) = Inr []"
      by (rule match_chunks_limit_0)
  qed
qed

section \<open>The writes at the sample inputs\<close>

lemma run_sample_ops:
  "run_ops sample_ops empty_database = \<lparr>documents = [doc_a], chunks = [chunk_c1, chunk_c3]\<rparr>"
  by (simp add: sample_ops_def empty_database_def create_document_def upsert_def doc_a_def
      sample_lengths embedding_dim_def new_row_def chunk_c1_def chunk_c3_def)

text \<open>
  C7 as stated fails, for query embeddings. The store reached by the
  sample writes holds two chunks of \<open>doc-a\<close>, both with 768 components. A query
  embedding of three components with \<open>match_count\<close> 0 is accepted without an
  error, under either plan: the dimension of a query is checked only where the
  query is compared with a stored embedding.
\<close>

theorem query_dimension_counterexample:
  "chunks (run_ops sample_ops empty_database) = [chunk_c1, chunk_c3]
   \<and> document_id chunk_c1 = ''doc-a''
   \<and> length [1, 2, 3 :: real] \<noteq> embedding_dim
   \<and> (\<forall>plan. match_chunks plan (run_ops sample_ops empty_database) [1, 2, 3] ''doc-a''
         (Some 0) = Inr [])"
  by (simp add: run_sample_ops sample_chunk_fields embedding_dim_def match_chunks_limit_0)

theorem embedding_dimension_fixed_and_immutable_witness:
  "run_ops sample_ops empty_database = \<lparr>documents = [doc_a], chunks = [chunk_c1, chunk_c3]\<rparr>
   \<and> (\<exists>e. embedding chunk_c1 = Some e \<and> length e = 768)
   \<and> chunk_c1 \<in> set (chunks (delete_document ''doc-b'' (run_ops sample_ops empty_database)))
   \<and> (\<exists>err. match_chunks Seq_scan (run_ops sample_ops empty_database) [1, 2, 3] ''doc-a'' None
         = Inl err)
   \<and> (\<exists>err. match_chunks (Index_scan (\<lambda>c. True)) (run_ops sample_ops empty_database)
         [1, 2, 3] ''doc-a'' (Some 2) = Inl err)"
proof -
  let ?db = "run_ops sample_ops empty_database"
  note t = embedding_dimension_fixed_and_immutable [of sample_ops]
  have c1: "chunk_c1 \<in> set (chunks ?db)"
    by (simp add: run_sample_ops)
  from t c1 have a: "\<exists>e. embedding chunk_c1 = Some e \<and> length e = 768"
    by metis
  have "apply_op (Delete_document ''doc-b'') ?db = Inr (delete_document ''doc-b'' ?db)"
    by simp
  with t c1 have "chunk_c1 \<notin> set (chunks (delete_document ''doc-b'' ?db))
      \<longrightarrow> Delete_document ''doc-b'' = Delete_document (document_id chunk_c1)"
    by blast
  then have b: "chunk_c1 \<in> set (chunks (delete_document ''doc-b'' ?db))"
    by (auto simp: sample_chunk_fields)
  from t have dim: "\<forall>plan (q :: vector) doc (k :: int option).
      length q \<noteq> embedding_dim \<and> (\<exists>c\<in>set (chunks ?db). document_id c = doc) \<and> k \<noteq> Some 0 \<longrightarrow>
      (\<exists>err. match_chunks plan ?db q doc k = Inl err)"
    by (elim conjE)
  have short: "length [1, 2, 3 :: real] \<noteq> embedding_dim"
    by (simp add: embedding_dim_def)
  have doc: "\<exists>c\<in>set (chunks ?db). document_id c = ''doc-a''"
    using c1 sample_chunk_fields(1) by blast
  from dim [rule_format, of "[1, 2, 3]" "''doc-a''" None Seq_scan] short doc
  have c: "\<exists>err. match_chunks Seq_scan ?db [1, 2, 3] ''doc-a'' None = Inl err"
    by simp
  from dim [rule_format, of "[1, 2, 3]" "''doc-a''" "Some 2" "Index_scan (\<lambda>c. True)"] short doc
  have d: "\<exists>err. match_chunks (Index_scan (\<lambda>c. True)) ?db [1, 2, 3] ''doc-a'' (Some 2) = Inl err"
    by simp
  from a b c d run_sample_ops show ?thesis by simp
qed

section \<open>Properties of the Provider Rotation Engine\<close>

lemma step_all_fail:
  assumes env: "\<forall>n. \<forall>c\<in>set (in_hand m @ remaining m). \<forall>r. respond n c \<noteq> Success r"
    and live: "\<not> terminal (state m)"
  shows "map fst (failures (step k respond m)) @ in_hand (step k respond m)
           @ remaining (step k respond m) =
         map fst (failures m) @ in_hand m @ remaining m"
    and "\<forall>r c. state (step k respond m) \<noteq> Succeeded r c"
    and "state (step k respond m) = Exhausted \<longrightarrow> remaining (step k respond m) = []"
    and "\<forall>x\<in>set (failures (step k respond m)).
           x \<in> set (failures m) \<or> (\<exists>n cls. respond n (fst x) = Failure cls (snd x))"
proof -
  show "map fst (failures (step k respond m)) @ in_hand (step k respond m)
           @ remaining (step k respond m) =
         map fst (failures m) @ in_hand m @ remaining m"
    using live env
    by (cases "state m")
      (auto simp: step_def select_next_def
        split: list.splits response_class.splits failure_class.splits)
  show "\<forall>r c. state (step k respond m) \<noteq> Succeeded r c"
    using live env
    by (cases "state m")
      (auto simp: step_def select_next_def
        split: list.splits response_class.splits failure_class.splits)
  show "state (step k respond m) = Exhausted \<longrightarrow> remaining (step k respond m) = []"
    using live
    by (cases "state m")
      (auto simp: step_def select_next_def
        split: list.splits response_class.splits failure_class.splits)
  show "\<forall>x\<in>set (failures (step k respond m)).
           x \<in> set (failures m) \<or> (\<exists>n cls. respond n (fst x) = Failure cls (snd x))"
    using live
    by (cases "state m")
      (auto simp: step_def select_next_def
        split: list.splits response_class.splits failure_class.splits)
qed

lemma run_all_fail:
  assumes "\<forall>n. \<forall>c\<in>set (in_hand m @ remaining m). \<forall>r. respond n c \<noteq> Success r"
    and "\<forall>r c. state m \<noteq> Succeeded r c"
    and "state m = Exhausted \<longrightarrow> remaining m = []"
  shows "state (run k respond m) = Exhausted
    \<and> map fst (failures (run k respond m)) = map fst (failures m) @ in_hand m @ remaining m
    \<and> (\<forall>x\<in>set (failures (run k respond m)).
          x \<in> set (failures m) \<or> (\<exists>n cls. respond n (fst x) = Failure cls (snd x)))"
  using assms
proof (induction k respond m rule: run.induct)
  case (1 k respond m)
  show ?case
  proof (cases "terminal (state m)")
    case True
    with "1.prems"(2) have ex: "state m = Exhausted"
      by (cases "state m") auto
    with "1.prems"(3) have "remaining m = []" by simp
    with ex True show ?thesis
      by (subst (1 2 3) run.simps) simp
  next
    case False
    note S = step_all_fail [OF "1.prems"(1) False, of k]
    have env': "\<forall>n. \<forall>c\<in>set (in_hand (step k respond m) @ remaining (step k respond m)).
        \<forall>r. respond n c \<noteq> Success r"
    proof (intro allI ballI)
      fix n c r assume "c \<in> set (in_hand (step k respond m) @ remaining (step k respond m))"
      then have "c \<in> set (map fst (failures (step k respond m)) @ in_hand (step k respond m)
          @ remaining (step k respond m))"
        by simp
      then have "c \<in> set (map fst (failures m) @ in_hand m @ remaining m)"
        unfolding S(1) .
      moreover have "c \<notin> set (in_hand m @ remaining m) \<Longrightarrow>
          c \<notin> set (in_hand (step k respond m) @ remaining (step k respond m))"
        using False
        by (cases "state m")
          (auto simp: step_def select_next_def
            split: list.splits response_class.splits failure_class.splits)
      ultimately have "c \<in> set (in_hand m @ remaining m)"
        using \<open>c \<in> set (in_hand (step k respond m) @ remaining (step k respond m))\<close> by blast
      with "1.prems"(1) show "respond n c \<noteq> Success r" by blast
    qed
    from "1.IH" [OF False env' S(2) S(3)]
    have IH: "state (run k respond (step k respond m)) = Exhausted"
      "map fst (failures (run k respond (step k respond m))) =
         map fst (failures (step k respond m)) @ in_hand (step k respond m)
           @ remaining (step k respond m)"
      "\<forall>x\<in>set (failures (run k respond (step k respond m))).
          x \<in> set (failures (step k respond m))
          \<or> (\<exists>n cls. respond n (fst x) = Failure cls (snd x))"
      by blast+
    have unfold: "run k respond m = run k respond (step k respond m)"
      using False by (subst run.simps) simp
    from IH(3) S(4) have "\<forall>x\<in>set (failures (run k respond (step k respond m))).
          x \<in> set (failures m) \<or> (\<exists>n cls. respond n (fst x) = Failure cls (snd x))"
      by blast
    with IH(1,2) S(1) show ?thesis
      unfolding unfold by simp
  qed
qed

text \<open>
  C6. When no candidate of the list ever answers with a success, whatever the
  mix of transient and permanent failures and whatever the retry ceiling, the
  engine stops in \<open>Exhausted\<close> and returns \<open>AllProvidersFailed\<close>. The error carries
  one entry per candidate, \<open>N\<close> in all, in the order of the list, which is the
  order of the attempts, and each entry's reason is a failure reason that this
  candidate gave.
\<close>

theorem all_candidates_fail_exhausts:
  fixes respond :: "nat \<Rightarrow> candidate \<Rightarrow> 'r response_class"
  assumes "\<forall>n. \<forall>c\<in>set candidates. \<forall>r. respond n c \<noteq> Success r"
  shows "state (run retry_ceiling respond (start candidates)) = Exhausted
    \<and> generate retry_ceiling respond candidates =
        Some (AllProvidersFailed (failures (run retry_ceiling respond (start candidates))))
    \<and> map fst (failures (run retry_ceiling respond (start candidates))) = candidates
    \<and> length (failures (run retry_ceiling respond (start candidates))) = length candidates
    \<and> (\<forall>x\<in>set (failures (run retry_ceiling respond (start candidates))).
          \<exists>n cls. respond n (fst x) = Failure cls (snd x))"
proof -
  let ?s = "start candidates :: 'r machine"
  let ?m = "run retry_ceiling respond ?s"
  have "state ?m = Exhausted
    \<and> map fst (failures ?m) = map fst (failures ?s) @ in_hand ?s @ remaining ?s
    \<and> (\<forall>x\<in>set (failures ?m). x \<in> set (failures ?s)
          \<or> (\<exists>n cls. respond n (fst x) = Failure cls (snd x)))"
  proof (rule run_all_fail)
    show "\<forall>n. \<forall>c\<in>set (in_hand ?s @ remaining ?s). \<forall>r. respond n c \<noteq> Success r"
      using assms by (simp add: start_def)
    show "\<forall>r c. state ?s \<noteq> Succeeded r c"
      by (simp add: start_def)
    show "state ?s = Exhausted \<longrightarrow> remaining ?s = []"
      by (simp add: start_def)
  qed
  then have a: "state ?m = Exhausted" and b: "map fst (failures ?m) = candidates"
    and c: "\<forall>x\<in>set (failures ?m). \<exists>n cls. respond n (fst x) = Failure cls (snd x)"
    by (simp_all add: start_def)
  from b have d: "length (failures ?m) = length candidates"
    by (metis length_map)
  from a have "generate retry_ceiling respond candidates = Some (AllProvidersFailed (failures ?m))"
    by (simp add: generate_def outcome_def)
  with a b c d show ?thesis by blast
qed

section \<open>The engine at the sample candidates\<close>

lemma run_step: "\<not> terminal (state m) \<Longrightarrow> run k r m = run k r (step k r m)"
  by (subst run.simps) simp

lemma run_terminal: "terminal (state m) \<Longrightarrow> run k r m = m"
  by (subst run.simps) simp

lemma run_sample:
  "run 1 sample_respond (start [qwen, llama, gemini]) =
     \<lparr>state = Exhausted, remaining = [], retries = 1, attempts = 5,
      failures = [(qwen, ''429''), (llama, ''auth''), (gemini, ''timeout'')]\<rparr>"
  by (simp add: run_step run_terminal start_def step_def select_next_def sample_respond_def
      qwen_def llama_def gemini_def)

theorem all_candidates_fail_exhausts_witness:
  "generate 1 sample_respond [qwen, llama, gemini] =
     Some (AllProvidersFailed [(qwen, ''429''), (llama, ''auth''), (gemini, ''timeout'')])
   \<and> state (run 1 sample_respond (start [qwen, llama, gemini])) = Exhausted
   \<and> length (failures (run 1 sample_respond (start [qwen, llama, gemini]))) = 3"
proof -
  have "\<forall>n. \<forall>c\<in>set [qwen, llama, gemini]. \<forall>r. sample_respond n c \<noteq> Success r"
    by (simp add: sample_respond_def)
  from all_candidates_fail_exhausts [OF this, of 1, unfolded run_sample] show ?thesis
    unfolding run_sample by simp
qed

section \<open>Properties of the quiz output parser\<close>

lemma four_labels_distinct:
  assumes "length ks = 4" and "set ks = {''A'', ''B'', ''C'', ''D''}"
  shows "distinct ks"
proof -
  have "card {''A'', ''B'', ''C'', ''D''} = 4"
    by simp
  with assms have "card (set ks) = length ks"
    by simp
  then show ?thesis
    by (rule card_distinct)
qed

lemma one_match:
  "distinct (map fst xs) \<Longrightarrow> k \<in> fst ` set xs \<Longrightarrow>
   length (filter (\<lambda>x. fst x = k) xs) = 1"
proof (induction xs)
  case Nil
  then show ?case by simp
next
  case (Cons x xs)
  show ?case
  proof (cases "fst x = k")
    case True
    from Cons.prems(1) True have "k \<notin> fst ` set xs"
      by simp
    then have "filter (\<lambda>y. fst y = k) xs = []"
      unfolding filter_empty_conv by force
    with True show ?thesis by simp
  next
    case False
    with Cons show ?thesis by auto
  qed
qed

lemma label_of_Some: "label_of s = Some l \<Longrightarrow> s = label_text l"
  by (cases l) (auto split: if_splits)

lemma label_text_in: "label_text l \<in> {''A'', ''B'', ''C'', ''D''}"
  by (cases l) simp_all

lemma parse_question_Some:
  assumes "parse_question raw = Some q"
  shows "length (raw_options raw) = 4"
    and "set (map fst (raw_options raw)) = {''A'', ''B'', ''C'', ''D''}"
    and "label_of (raw_correct_answer raw) = Some (correct_answer q)"
    and "raw_explanation raw = Some (explanation q)"
    and "options q = \<lparr>opt_A = the (map_of (raw_options raw) ''A''),
                       opt_B = the (map_of (raw_options raw) ''B''),
                       opt_C = the (map_of (raw_options raw) ''C''),
                       opt_D = the (map_of (raw_options raw) ''D'')\<rparr>"
    and "option_text (options q) (correct_answer q) \<noteq> []"
proof -
  let ?os = "\<lparr>opt_A = the (map_of (raw_options raw) ''A''),
              opt_B = the (map_of (raw_options raw) ''B''),
              opt_C = the (map_of (raw_options raw) ''C''),
              opt_D = the (map_of (raw_options raw) ''D'')\<rparr>"
  have shape: "length (raw_options raw) = 4
      \<and> set (map fst (raw_options raw)) = {''A'', ''B'', ''C'', ''D''}"
  proof (rule ccontr)
    assume "\<not> ?thesis"
    then have "parse_question raw = None"
      unfolding parse_question_def by (simp only: if_False)
    with assms show False by simp
  qed
  have body: "(case (label_of (raw_correct_answer raw), raw_explanation raw) of
        (Some l, Some ex) \<Rightarrow>
          (let os = ?os
           in if option_text os l = [] then None
              else Some \<lparr>question = raw_text raw, options = os,
                         correct_answer = l, explanation = ex\<rparr>)
      | _ \<Rightarrow> None) = Some q"
    using assms unfolding parse_question_def if_P [OF shape] .
  then obtain l ex where l: "label_of (raw_correct_answer raw) = Some l"
    and ex: "raw_explanation raw = Some ex"
    by (cases "label_of (raw_correct_answer raw)"; cases "raw_explanation raw") simp_all
  from body l ex have ne: "option_text ?os l \<noteq> []"
    and q: "q = \<lparr>question = raw_text raw, options = ?os, correct_answer = l, explanation = ex\<rparr>"
    by (simp_all add: Let_def split: if_splits)
  from shape show "length (raw_options raw) = 4"
    and "set (map fst (raw_options raw)) = {''A'', ''B'', ''C'', ''D''}"
    by (rule conjunct1, rule conjunct2)
  from l q show "label_of (raw_correct_answer raw) = Some (correct_answer q)" by simp
  from ex q show "raw_explanation raw = Some (explanation q)" by simp
  from q show "options q = ?os" by simp
  from ne q show "option_text (options q) (correct_answer q) \<noteq> []" by simp
qed

text \<open>
  C8. A question the parser accepts has exactly four options, labeled A, B, C
  and D, each label once; its \<open>correct_answer\<close> is one of these labels and
  matches exactly one option; it has an explanation string; and the option its
  \<open>correct_answer\<close> names is present in the output and non-empty: with
  \<open>correct_answer = "B"\<close>, \<open>options.B\<close> is there and is not empty. An output whose
  \<open>correct_answer\<close> is not a key of its \<open>options\<close> is rejected.
\<close>

theorem parse_question_shape:
  "(parse_question raw = Some q \<longrightarrow>
      length (raw_options raw) = 4
      \<and> set (map fst (raw_options raw)) = {''A'', ''B'', ''C'', ''D''}
      \<and> distinct (map fst (raw_options raw))
      \<and> raw_correct_answer raw = label_text (correct_answer q)
      \<and> length (filter (\<lambda>x. fst x = raw_correct_answer raw) (raw_options raw)) = 1
      \<and> raw_explanation raw = Some (explanation q)
      \<and> map_of (raw_options raw) (raw_correct_answer raw) =
          Some (option_text (options q) (correct_answer q))
      \<and> option_text (options q) (correct_answer q) \<noteq> []
      \<and> (correct_answer q = Label_B \<longrightarrow>
           map_of (raw_options raw) ''B'' = Some (opt_B (options q)) \<and> opt_B (options q) \<noteq> []))
   \<and> (raw_correct_answer raw \<notin> fst ` set (raw_options raw) \<longrightarrow> parse_question raw = None)"
proof -
  have accepted: "length (raw_options raw) = 4
      \<and> set (map fst (raw_options raw)) = {''A'', ''B'', ''C'', ''D''}
      \<and> distinct (map fst (raw_options raw))
      \<and> raw_correct_answer raw = label_text (correct_answer q)
      \<and> length (filter (\<lambda>x. fst x = raw_correct_answer raw) (raw_options raw)) = 1
      \<and> raw_explanation raw = Some (explanation q)
      \<and> map_of (raw_options raw) (raw_correct_answer raw) =
          Some (option_text (options q) (correct_answer q))
      \<and> option_text (options q) (correct_answer q) \<noteq> []
      \<and> (correct_answer q = Label_B \<longrightarrow>
           map_of (raw_options raw) ''B'' = Some (opt_B (options q)) \<and> opt_B (options q) \<noteq> [])"
    if acc: "parse_question raw = Some q"
  proof -
    note P = parse_question_Some [OF acc]
    have dist: "distinct (map fst (raw_options raw))"
      using P(1,2) by (intro four_labels_distinct) simp_all
    have ca: "raw_correct_answer raw = label_text (correct_answer q)"
      using P(3) by (rule label_of_Some)
    have mem: "raw_correct_answer raw \<in> fst ` set (raw_options raw)"
      using P(2) label_text_in [of "correct_answer q"] ca by simp
    have one: "length (filter (\<lambda>x. fst x = raw_correct_answer raw) (raw_options raw)) = 1"
      using dist mem by (rule one_match)
    from mem obtain v where v: "map_of (raw_options raw) (raw_correct_answer raw) = Some v"
      by (metis domD dom_map_of_conv_image_fst)
    have ot: "option_text (options q) (correct_answer q) =
        the (map_of (raw_options raw) (label_text (correct_answer q)))"
      unfolding P(5) by (cases "correct_answer q") simp_all
    from ot v ca have present: "map_of (raw_options raw) (raw_correct_answer raw) =
        Some (option_text (options q) (correct_answer q))"
      by simp
    have b: "map_of (raw_options raw) ''B'' = Some (opt_B (options q)) \<and> opt_B (options q) \<noteq> []"
      if "correct_answer q = Label_B"
      using that present P(6) ca by simp
    from P(1,2,4,6) dist ca one present b show ?thesis
      by blast
  qed
  have rejected: "parse_question raw = None"
    if no: "raw_correct_answer raw \<notin> fst ` set (raw_options raw)"
  proof (rule ccontr)
    assume "parse_question raw \<noteq> None"
    then obtain q' where acc: "parse_question raw = Some q'" by auto
    note P = parse_question_Some [OF acc]
    from P(3) have "raw_correct_answer raw = label_text (correct_answer q')"
      by (rule label_of_Some)
    with P(2) label_text_in [of "correct_answer q'"]
    have "raw_correct_answer raw \<in> fst ` set (raw_options raw)"
      by simp
    with no show False by contradiction
  qed
  from accepted rejected show ?thesis
    by blast
qed

section \<open>The parser at the sample questions\<close>

lemma parse_good:
  "parse_question raw_good =
     Some \<lparr>question = ''What does RAG retrieve?'',
           options = \<lparr>opt_A = ''weights'', opt_B = ''chunks'', opt_C = ''tokens'',
                      opt_D = ''prompts''\<rparr>,
           correct_answer = Label_B,
           explanation = ''Retrieval returns stored chunks.''\<rparr>"
  by (simp add: parse_question_def raw_good_def)

theorem parse_question_shape_witness:
  "parse_question raw_good \<noteq> None
   \<and> map_of (raw_options raw_good) ''B'' = Some ''chunks''
   \<and> opt_B (options (the (parse_question raw_good))) = ''chunks''
   \<and> length (filter (\<lambda>x. fst x = ''B'') (raw_options raw_good)) = 1
   \<and> parse_question raw_missing = None
   \<and> parse_question raw_empty = None"
proof -
  let ?q = "the (parse_question raw_good)"
  have acc: "parse_question raw_good = Some ?q"
    by (simp add: parse_good)
  have b: "correct_answer ?q = Label_B"
    by (simp add: parse_good)
  have b': "raw_correct_answer raw_good = ''B''"
    by (simp add: raw_good_def)
  from parse_question_shape [of raw_good ?q] acc b b'
  have good: "map_of (raw_options raw_good) ''B'' = Some (opt_B (options ?q))"
    "length (filter (\<lambda>x. fst x = ''B'') (raw_options raw_good)) = 1"
    by simp_all
  have "raw_correct_answer raw_missing \<notin> fst ` set (raw_options raw_missing)"
    by (simp add: raw_missing_def raw_good_def)
  with parse_question_shape [of raw_missing ?q] have missing: "parse_question raw_missing = None"
    by blast
  have empty: "parse_question raw_empty = None"
    by (simp add: parse_question_def raw_empty_def raw_good_def)
  have "opt_B (options ?q) = ''chunks''"
    by (simp add: parse_good)
  with acc good missing empty show ?thesis by auto
qed

end
